theory Spec2Isabelle
  imports Complex_Main
begin

section \<open>Identity tracker (tracker.ts)\<close>

text \<open>
  JavaScript numbers are modelled exactly: box coordinates, scores and thresholds as
  \<^typ>\<open>real\<close>, millisecond timestamps as \<^typ>\<open>int\<close>, frame counters as \<^typ>\<open>nat\<close>.
  Rounding of IEEE doubles is not part of the model.
\<close>

subsection \<open>IoU matcher\<close>

text \<open>A box is the tuple \<open>[x, y, w, h]\<close>.\<close>

type_synonym box = "real \<times> real \<times> real \<times> real"

definition calculateIoU :: "box \<Rightarrow> box \<Rightarrow> real" where
  "calculateIoU boxA boxB =
     (case boxA of (ax, ay, aw, ah) \<Rightarrow>
      case boxB of (bx, by, bw, bh) \<Rightarrow>
        let x1 = max ax bx;
            y1 = max ay by;
            x2 = min (ax + aw) (bx + bw);
            y2 = min (ay + ah) (by + bh);
            intersectionW = max 0 (x2 - x1);
            intersectionH = max 0 (y2 - y1);
            intersectionArea = intersectionW * intersectionH;
            areaA = aw * ah;
            areaB = bw * bh;
            unionArea = areaA + areaB - intersectionArea
        in if unionArea = 0 then 0 else intersectionArea / unionArea)"





subsection \<open>Tracker configuration (config.ts)\<close>

record TrackerConfig =
  iouThreshold :: real
  gracePeriodMs :: int
  highScoreThreshold :: real
  lowScoreThreshold :: real
  confirmationFrames :: nat
  minAreaRatio :: real
  maxAspectRatio :: real
  minAspectRatio :: real

definition TRACKER_CONFIG :: TrackerConfig where
  "TRACKER_CONFIG =
     \<lparr> iouThreshold = 3 / 10,
       gracePeriodMs = 2000,
       highScoreThreshold = 1 / 2,
       lowScoreThreshold = 3 / 10,
       confirmationFrames = 3,
       minAreaRatio = 5 / 1000,
       maxAspectRatio = 4,
       minAspectRatio = 1 / 4 \<rparr>"

subsection \<open>Tracker state and inputs\<close>

text \<open>
  What the detector returns for one person: the pixel bounding box and the score of the
  first category.
\<close>

record RawDetection =
  originX :: real
  originY :: real
  width :: real
  height :: real
  categoryScore :: real

text \<open>A detection after normalisation: \<open>{bbox, score}\<close>.\<close>

type_synonym Detection = "box \<times> real"

record LocalTrack =
  track_id :: string
  bbox :: box
  score :: real
  firstSeen :: int
  lastSeen :: int
  matched :: bool
  consecutiveFrames :: nat
  isConfirmed :: bool

text \<open>
  The module state of the tracker: whether \<open>objectDetector\<close> is set, \<open>lastVideoTime\<close>,
  the array \<open>localTracks\<close> and the published store \<open>trackingData\<close> (an object keyed by
  track id). \<open>idCounter\<close> counts the calls of \<open>generateID\<close> made so far; the identifiers
  themselves come from the environment as a sequence \<open>gen\<close>, the \<open>k\<close>-th call returning
  \<open>gen k\<close>.
\<close>

record TrackerState =
  hasDetector :: bool
  lastVideoTime :: real
  localTracks :: "LocalTrack list"
  trackingData :: "string \<rightharpoonup> LocalTrack"
  idCounter :: nat

text \<open>
  What one call of \<open>processFrame(video)\<close> reads from its environment: the video's
  \<open>currentTime\<close>, \<open>videoWidth\<close> and \<open>videoHeight\<close>, the detector's result for the
  frame, and the value of \<open>Date.now()\<close>.
\<close>

record FrameInput =
  currentTime :: real
  videoWidth :: real
  videoHeight :: real
  detections :: "RawDetection list"
  dateNow :: int

definition initialTracker :: TrackerState where
  "initialTracker =
     \<lparr> hasDetector = False, lastVideoTime = - 1, localTracks = [],
       trackingData = Map.empty, idCounter = 0 \<rparr>"

subsection \<open>processFrame\<close>

definition normalize :: "real \<Rightarrow> real \<Rightarrow> RawDetection \<Rightarrow> Detection" where
  "normalize vidW vidH d =
     ((originX d / vidW, originY d / vidH, width d / vidW, height d / vidH), categoryScore d)"

text \<open>
  The geometric filter. JavaScript divides by zero without failing: for \<open>h = 0\<close> the
  ratio \<open>w / h\<close> is infinite when \<open>w \<noteq> 0\<close> (and the detection is dropped by one of the
  two comparisons) and NaN when \<open>w = 0\<close> (both comparisons are false and the detection
  is kept); these two cases are written out.
\<close>

definition geometricFilter :: "TrackerConfig \<Rightarrow> Detection \<Rightarrow> bool" where
  "geometricFilter cfg d =
     (case fst d of (x, y, w, h) \<Rightarrow>
        let area = w * h in
        if area < minAreaRatio cfg then False
        else if h = 0 then w = 0
        else let aspectRatio = w / h in
             if aspectRatio > maxAspectRatio cfg \<or> aspectRatio < minAspectRatio cfg then False
             else True)"

text \<open>
  The inner \<open>forEach\<close> over \<open>localTracks\<close>: the running pair \<open>(bestIoU, bestMatchIndex)\<close>,
  with \<open>None\<close> for the index \<open>-1\<close>.
\<close>

fun findBest :: "box \<Rightarrow> LocalTrack list \<Rightarrow> nat \<Rightarrow> real \<times> nat option \<Rightarrow> real \<times> nat option" where
  "findBest detBox [] index best = best"
| "findBest detBox (track # rest) index (bestIoU, bestMatchIndex) =
     (let iou = calculateIoU (bbox track) detBox in
      if iou > bestIoU then findBest detBox rest (Suc index) (iou, Some index)
      else findBest detBox rest (Suc index) (bestIoU, bestMatchIndex))"

definition updateTrack :: "TrackerConfig \<Rightarrow> int \<Rightarrow> Detection \<Rightarrow> LocalTrack \<Rightarrow> LocalTrack" where
  "updateTrack cfg now det track =
     (let frames = consecutiveFrames track + 1 in
      track \<lparr> bbox := fst det, score := snd det, lastSeen := now, matched := True,
              consecutiveFrames := frames,
              isConfirmed := (if frames \<ge> confirmationFrames cfg then True
                              else isConfirmed track) \<rparr>)"

definition newTrack :: "string \<Rightarrow> int \<Rightarrow> Detection \<Rightarrow> LocalTrack" where
  "newTrack newId now det =
     \<lparr> track_id = newId, bbox = fst det, score = snd det, firstSeen = now, lastSeen = now,
       matched = True, consecutiveFrames = 1, isConfirmed = False \<rparr>"

text \<open>
  The body of \<open>currentDetections.forEach\<close> for one detection, on the pair of the track
  array and the number of identifiers drawn so far.
\<close>

definition matchDetection ::
  "TrackerConfig \<Rightarrow> (nat \<Rightarrow> string) \<Rightarrow> int \<Rightarrow> LocalTrack list \<times> nat \<Rightarrow> Detection
     \<Rightarrow> LocalTrack list \<times> nat" where
  "matchDetection cfg gen now st det =
     (case st of (tracks, counter) \<Rightarrow>
      case findBest (fst det) tracks 0 (0, None) of (bestIoU, bestMatchIndex) \<Rightarrow>
        if bestIoU > iouThreshold cfg \<and> bestMatchIndex \<noteq> None
        then (tracks[the bestMatchIndex := updateTrack cfg now det (tracks ! the bestMatchIndex)],
              counter)
        else if snd det < highScoreThreshold cfg then (tracks, counter)
        else (tracks @ [newTrack (gen counter) now det], Suc counter))"

definition matchAll ::
  "TrackerConfig \<Rightarrow> (nat \<Rightarrow> string) \<Rightarrow> int \<Rightarrow> Detection list \<Rightarrow> LocalTrack list \<times> nat
     \<Rightarrow> LocalTrack list \<times> nat" where
  "matchAll cfg gen now dets st = foldl (matchDetection cfg gen now) st dets"

definition pruneTracks :: "TrackerConfig \<Rightarrow> int \<Rightarrow> LocalTrack list \<Rightarrow> LocalTrack list" where
  "pruneTracks cfg now tracks = filter (\<lambda>t. now - lastSeen t < gracePeriodMs cfg) tracks"

definition storeUpdate :: "LocalTrack list \<Rightarrow> (string \<rightharpoonup> LocalTrack)" where
  "storeUpdate tracks =
     foldl (\<lambda>store t. if isConfirmed t then store(track_id t \<mapsto> t) else store) Map.empty tracks"

text \<open>
  The tracks as they stand after the matching phase of a frame and before pruning:
  every track has \<open>matched\<close> reset, then the filtered detections are matched in detector
  order.
\<close>

definition currentDetections :: "TrackerConfig \<Rightarrow> FrameInput \<Rightarrow> Detection list" where
  "currentDetections cfg f =
     filter (geometricFilter cfg) (map (normalize (videoWidth f) (videoHeight f)) (detections f))"

definition matchedTracks ::
  "TrackerConfig \<Rightarrow> (nat \<Rightarrow> string) \<Rightarrow> FrameInput \<Rightarrow> TrackerState \<Rightarrow> LocalTrack list \<times> nat" where
  "matchedTracks cfg gen f st =
     matchAll cfg gen (dateNow f) (currentDetections cfg f)
       (map (\<lambda>t. t\<lparr>matched := False\<rparr>) (localTracks st), idCounter st)"

definition processFrame ::
  "TrackerConfig \<Rightarrow> (nat \<Rightarrow> string) \<Rightarrow> FrameInput \<Rightarrow> TrackerState \<Rightarrow> TrackerState" where
  "processFrame cfg gen f st =
     (if \<not> hasDetector st then st
      else if currentTime f \<noteq> lastVideoTime st then
        (let st1 = st\<lparr>lastVideoTime := currentTime f\<rparr> in
         if videoWidth f = 0 \<or> videoHeight f = 0 then st1
         else
           (case matchedTracks cfg gen f st1 of (tracks, counter) \<Rightarrow>
              let activeTracks = pruneTracks cfg (dateNow f) tracks in
              st1\<lparr>localTracks := activeTracks,
                  trackingData := storeUpdate activeTracks,
                  idCounter := counter\<rparr>))
      else st)"

text \<open>The call reaches the tracking phase: none of the three early exits is taken.\<close>

definition frameProcessed :: "FrameInput \<Rightarrow> TrackerState \<Rightarrow> bool" where
  "frameProcessed f st =
     (hasDetector st \<and> currentTime f \<noteq> lastVideoTime st \<and> videoWidth f \<noteq> 0 \<and> videoHeight f \<noteq> 0)"

text \<open>
  \<open>initializeTracker\<close> sets the detector unless one exists or its creation fails;
  \<open>disposeTracker\<close> clears the detector, the tracks and the store.
\<close>

definition initializeTracker :: "bool \<Rightarrow> TrackerState \<Rightarrow> TrackerState" where
  "initializeTracker created st = (if hasDetector st then st else st\<lparr>hasDetector := created\<rparr>)"

definition disposeTracker :: "TrackerState \<Rightarrow> TrackerState" where
  "disposeTracker st = st\<lparr>hasDetector := False, localTracks := [], trackingData := Map.empty\<rparr>"

datatype TrackerCall = Initialize bool | Frame FrameInput | Dispose

fun trackerStep :: "TrackerConfig \<Rightarrow> (nat \<Rightarrow> string) \<Rightarrow> TrackerState \<Rightarrow> TrackerCall \<Rightarrow> TrackerState" where
  "trackerStep cfg gen st (Initialize created) = initializeTracker created st"
| "trackerStep cfg gen st (Frame f) = processFrame cfg gen f st"
| "trackerStep cfg gen st Dispose = disposeTracker st"

definition runTracker ::
  "TrackerConfig \<Rightarrow> (nat \<Rightarrow> string) \<Rightarrow> TrackerCall list \<Rightarrow> TrackerState \<Rightarrow> TrackerState" where
  "runTracker cfg gen calls st = foldl (trackerStep cfg gen) st calls"

subsection \<open>Relations between successive tracker states\<close>

text \<open>
  \<open>evolves t t'\<close>: the track \<open>t'\<close> is a later state of the track \<open>t\<close>. \<open>extends\<close> relates
  a track array with identifier count \<open>c\<close> to a later one with count \<open>c'\<close>: every later
  track is a later state of an earlier one, or carries an identifier drawn in between.
\<close>

definition evolves :: "LocalTrack \<Rightarrow> LocalTrack \<Rightarrow> bool" where
  "evolves t t' =
     (track_id t' = track_id t \<and> firstSeen t' = firstSeen t \<and>
      consecutiveFrames t \<le> consecutiveFrames t' \<and> (isConfirmed t \<longrightarrow> isConfirmed t'))"

definition extends ::
  "(nat \<Rightarrow> string) \<Rightarrow> LocalTrack list \<times> nat \<Rightarrow> LocalTrack list \<times> nat \<Rightarrow> bool" where
  "extends gen old new =
     (snd old \<le> snd new \<and>
      (\<forall>t' \<in> set (fst new).
         (\<exists>t \<in> set (fst old). evolves t t') \<or>
         (\<exists>k. snd old \<le> k \<and> k < snd new \<and> track_id t' = gen k)))"

definition idsDrawn :: "(nat \<Rightarrow> string) \<Rightarrow> LocalTrack list \<times> nat \<Rightarrow> bool" where
  "idsDrawn gen st =
     (distinct (map track_id (fst st)) \<and>
      (\<forall>t \<in> set (fst st). \<exists>k < snd st. track_id t = gen k))"

definition confirmedByCount :: "TrackerConfig \<Rightarrow> LocalTrack \<Rightarrow> bool" where
  "confirmedByCount cfg t = (isConfirmed t \<longrightarrow> confirmationFrames cfg \<le> consecutiveFrames t)"

text \<open>
  \<open>seenNow n old t\<close>: the track \<open>t\<close> was matched or created at time \<open>n\<close>, or it is one of
  the tracks \<open>old\<close> untouched.
\<close>

definition seenNow :: "int \<Rightarrow> LocalTrack list \<Rightarrow> LocalTrack \<Rightarrow> bool" where
  "seenNow n old t = ((matched t \<and> lastSeen t = n) \<or> t \<in> set old)"

subsection \<open>Concrete tracker runs\<close>

text \<open>
  An identifier sequence without repetition, a 4 by 4 pixel video, and three frames: one
  detection that starts a track, two detections that both overlap that track, and a
  frame without detections.
\<close>

definition exampleGen :: "nat \<Rightarrow> string" where
  "exampleGen k = replicate (Suc k) (CHR ''A'')"

definition startFrame :: FrameInput where
  "startFrame =
     \<lparr> currentTime = 1 / 8, videoWidth = 4, videoHeight = 4,
       detections = [\<lparr> originX = 0, originY = 0, width = 2, height = 2, categoryScore = 3 / 4 \<rparr>],
       dateNow = 1000 \<rparr>"

definition doubleFrame :: FrameInput where
  "doubleFrame =
     \<lparr> currentTime = 2 / 8, videoWidth = 4, videoHeight = 4,
       detections = [\<lparr> originX = 0, originY = 0, width = 2, height = 2, categoryScore = 3 / 4 \<rparr>,
                     \<lparr> originX = 0, originY = 0, width = 2, height = 1, categoryScore = 1 / 4 \<rparr>],
       dateNow = 1125 \<rparr>"

definition emptyFrame :: "real \<Rightarrow> int \<Rightarrow> FrameInput" where
  "emptyFrame time ms =
     \<lparr> currentTime = time, videoWidth = 4, videoHeight = 4, detections = [], dateNow = ms \<rparr>"

definition startedTracker :: "(nat \<Rightarrow> string) \<Rightarrow> TrackerState" where
  "startedTracker gen =
     runTracker TRACKER_CONFIG gen [Initialize True, Frame startFrame] initialTracker"

definition doubledTracker :: "(nat \<Rightarrow> string) \<Rightarrow> TrackerState" where
  "doubledTracker gen = processFrame TRACKER_CONFIG gen doubleFrame (startedTracker gen)"

section \<open>Session store (dexieDb.ts)\<close>

text \<open>
  Field names that occur in more than one interface of the source carry a suffix here:
  \<open>_db\<close> for the stored \<open>UserSession\<close>, \<open>_sum\<close> for \<open>SummarizedSession\<close> and \<open>_mem\<close> for the
  entries of the in-memory map \<open>activeSessions\<close>.
\<close>

record AnalysisEvent =
  timestamp :: int
  targetUid :: string
  prompt :: string
  result :: string

record UserSession =
  sessionId :: string
  firstSeen_db :: int
  lastSeen_db :: int
  duration :: real
  events :: "AnalysisEvent list"

record SummarizedSession =
  sessionId_sum :: string
  timestamp_sum :: int
  duration_sum :: int
  gender :: string
  age_group :: string
  fashion_style :: string

text \<open>
  The two tables, each keyed by \<open>sessionId\<close>. A table is a list of rows with \<open>put\<close>
  replacing the row of the same key; the order in which Dexie returns rows is not
  modelled.
\<close>

record Database =
  sessions :: "UserSession list"
  summarized_sessions :: "SummarizedSession list"

definition emptyDatabase :: Database where
  "emptyDatabase = \<lparr> sessions = [], summarized_sessions = [] \<rparr>"

fun putRow :: "('r \<Rightarrow> string) \<Rightarrow> 'r \<Rightarrow> 'r list \<Rightarrow> 'r list" where
  "putRow key row [] = [row]"
| "putRow key row (r # rs) = (if key r = key row then row # rs else r # putRow key row rs)"

definition getRow :: "('r \<Rightarrow> string) \<Rightarrow> string \<Rightarrow> 'r list \<Rightarrow> 'r option" where
  "getRow key k rows = find (\<lambda>r. key r = k) rows"

definition deleteRow :: "('r \<Rightarrow> string) \<Rightarrow> string \<Rightarrow> 'r list \<Rightarrow> 'r list" where
  "deleteRow key k rows = filter (\<lambda>r. key r \<noteq> k) rows"

text \<open>
  Every operation that reads \<open>Date.now()\<close> takes that reading as its argument \<open>now\<close>; the
  two readings inside \<open>startSession\<close> and inside \<open>addAnalysisLog\<close> are taken as one.
\<close>

definition startSession :: "string \<Rightarrow> int \<Rightarrow> Database \<Rightarrow> Database" where
  "startSession sid now db =
     db\<lparr>sessions := putRow sessionId
           \<lparr> sessionId = sid, firstSeen_db = now, lastSeen_db = now, duration = 0, events = [] \<rparr>
           (sessions db)\<rparr>"

definition updateSessionHeartbeat :: "string \<Rightarrow> int \<Rightarrow> Database \<Rightarrow> Database" where
  "updateSessionHeartbeat sid now db =
     (case getRow sessionId sid (sessions db) of
        None \<Rightarrow> db
      | Some data \<Rightarrow>
          db\<lparr>sessions := putRow sessionId
                (data\<lparr>lastSeen_db := now, duration := real_of_int (now - firstSeen_db data) / 1000\<rparr>)
                (sessions db)\<rparr>)"

definition addAnalysisLog :: "string \<Rightarrow> string \<Rightarrow> string \<Rightarrow> string \<Rightarrow> int \<Rightarrow> Database \<Rightarrow> Database" where
  "addAnalysisLog sid uid promptText resultText now db =
     (case getRow sessionId sid (sessions db) of
        None \<Rightarrow> db
      | Some data \<Rightarrow>
          db\<lparr>sessions := putRow sessionId
                (data\<lparr>events := events data @
                         [\<lparr> timestamp = now, targetUid = uid, prompt = promptText, result = resultText \<rparr>],
                      lastSeen_db := now,
                      duration := real_of_int (now - firstSeen_db data) / 1000\<rparr>)
                (sessions db)\<rparr>)"

definition endSession :: "string \<Rightarrow> int \<Rightarrow> Database \<Rightarrow> Database" where
  "endSession sid now db = updateSessionHeartbeat sid now db"

definition getSession :: "string \<Rightarrow> Database \<Rightarrow> UserSession option" where
  "getSession sid db = getRow sessionId sid (sessions db)"

definition getAllSessions :: "Database \<Rightarrow> UserSession list" where
  "getAllSessions db = sessions db"

definition HOUR_MS :: int where
  "HOUR_MS = 60 * 60 * 1000"

definition getSessionsByHour :: "int \<Rightarrow> Database \<Rightarrow> UserSession list" where
  "getSessionsByHour hourStart db =
     (let hourEnd = hourStart + HOUR_MS in
      filter (\<lambda>s. hourStart \<le> firstSeen_db s \<and> firstSeen_db s < hourEnd) (sessions db))"

definition deleteSession :: "string \<Rightarrow> Database \<Rightarrow> Database" where
  "deleteSession sid db = db\<lparr>sessions := deleteRow sessionId sid (sessions db)\<rparr>"

definition bulkSaveSummarizedSessions :: "SummarizedSession list \<Rightarrow> Database \<Rightarrow> Database" where
  "bulkSaveSummarizedSessions data db =
     db\<lparr>summarized_sessions := foldl (\<lambda>rows row. putRow sessionId_sum row rows)
                                    (summarized_sessions db) data\<rparr>"

section \<open>Hourly aggregator (sessionAggregator.ts)\<close>

subsection \<open>Pure aggregation helpers\<close>

fun modeLoop :: "string list \<Rightarrow> (string \<rightharpoonup> nat) \<Rightarrow> nat \<Rightarrow> string \<Rightarrow> string" where
  "modeLoop [] counts maxCount mode = mode"
| "modeLoop (v # vs) counts maxCount mode =
     (let count = (case counts v of None \<Rightarrow> 0 | Some c \<Rightarrow> c) + 1;
          counts' = counts(v \<mapsto> count)
      in if count > maxCount then modeLoop vs counts' count v
         else modeLoop vs counts' maxCount mode)"

definition computeMode :: "string list \<Rightarrow> string" where
  "computeMode values =
     (case values of [] \<Rightarrow> ''unknown'' | v0 # _ \<Rightarrow> modeLoop values Map.empty 0 v0)"

text \<open>
  Splitting at \<open>/[,\/\s]+/\<close> and lower-casing, for ASCII text: the separators are the
  comma, the slash and the ASCII white space characters, and a term is a maximal run of
  other characters. Empty pieces are dropped, as the \<open>filter\<close> of the source does.
\<close>

definition isSeparator :: "char \<Rightarrow> bool" where
  "isSeparator c =
     (c = CHR '','' \<or> c = CHR ''/'' \<or> c = CHR '' '' \<or>
      c = CHR 0x09 \<or> c = CHR 0x0A \<or> c = CHR 0x0B \<or> c = CHR 0x0C \<or> c = CHR 0x0D)"

definition toLowerCase :: "char \<Rightarrow> char" where
  "toLowerCase c =
     (let code = (of_char c :: nat) in
      if 65 \<le> code \<and> code \<le> 90 then char_of (code + 32) else c)"

fun splitTerms :: "string \<Rightarrow> string \<Rightarrow> string list" where
  "splitTerms current [] = (if current = [] then [] else [current])"
| "splitTerms current (c # cs) =
     (if isSeparator c
      then (if current = [] then splitTerms [] cs else current # splitTerms [] cs)
      else splitTerms (current @ [toLowerCase c]) cs)"

definition bumpTerm :: "(string \<times> nat) list \<Rightarrow> string \<Rightarrow> (string \<times> nat) list" where
  "bumpTerm freq term =
     (case map_of freq term of
        None \<Rightarrow> freq @ [(term, 1)]
      | Some n \<Rightarrow> map (\<lambda>(k, v). if k = term then (k, n + 1) else (k, v)) freq)"

definition buildFashionFrequencyMap :: "string list \<Rightarrow> (string \<times> nat) list" where
  "buildFashionFrequencyMap fashionValues =
     foldl (\<lambda>freq raw. foldl bumpTerm freq (splitTerms [] raw)) [] fashionValues"

text \<open>
  What \<open>JSON.parse\<close> makes of an event's result, as far as the aggregator reads it. The
  parser itself and \<open>JSON.stringify\<close> are parameters of the functions below.
\<close>

record ParsedEvent =
  age :: "string option"
  sex :: "string option"
  fashion :: "string option"

definition truthyValues :: "string option list \<Rightarrow> string list" where
  "truthyValues vs = filter (\<lambda>v. v \<noteq> []) (map the (filter (\<lambda>v. v \<noteq> None) vs))"

definition parseEventResult :: "(string \<Rightarrow> ParsedEvent option) \<Rightarrow> AnalysisEvent \<Rightarrow> ParsedEvent option" where
  "parseEventResult parseJson event = parseJson (result event)"

text \<open>\<open>Math.round\<close> of a number of milliseconds divided by 1000: the nearest integer, halves up.\<close>

definition roundSeconds :: "int \<Rightarrow> int" where
  "roundSeconds ms = (ms + 500) div 1000"

definition buildSummarizedSession ::
  "(string \<Rightarrow> ParsedEvent option) \<Rightarrow> ((string \<times> nat) list \<Rightarrow> string) \<Rightarrow> UserSession
     \<Rightarrow> SummarizedSession" where
  "buildSummarizedSession parseJson stringify session =
     (let parsed = map the (filter (\<lambda>p. p \<noteq> None) (map (parseEventResult parseJson) (events session)));
          ages = truthyValues (map age parsed);
          sexes = truthyValues (map sex parsed);
          fashions = truthyValues (map fashion parsed);
          durationSeconds = roundSeconds (lastSeen_db session - firstSeen_db session)
      in \<lparr> sessionId_sum = sessionId session,
           timestamp_sum = firstSeen_db session,
           duration_sum = durationSeconds,
           gender = computeMode sexes,
           age_group = computeMode ages,
           fashion_style = stringify (buildFashionFrequencyMap fashions) \<rparr>)"

subsection \<open>Hour utilities\<close>

text \<open>
  \<open>getHourFloor\<close> clears minutes, seconds and milliseconds of the local time. With \<open>tz\<close>
  the offset of local time from UTC in milliseconds (taken as constant), that is the
  instant below.
\<close>

definition getHourFloor :: "int \<Rightarrow> int \<Rightarrow> int" where
  "getHourFloor tz timestampMs = timestampMs - (timestampMs + tz) mod HOUR_MS"

subsection \<open>Aggregation entry points\<close>

text \<open>
  Each entry point returns the database after its writes, the number it reports, and the
  list of summaries it has written (in the order written).
\<close>

definition aggregateHourlyData ::
  "(string \<Rightarrow> ParsedEvent option) \<Rightarrow> ((string \<times> nat) list \<Rightarrow> string) \<Rightarrow> int \<Rightarrow> Database
     \<Rightarrow> Database \<times> nat \<times> SummarizedSession list" where
  "aggregateHourlyData parseJson stringify targetHourTimestamp db =
     (let sessions = getSessionsByHour targetHourTimestamp db in
      if length sessions = 0 then (db, 0, [])
      else
        let validSessions = filter (\<lambda>s. length (events s) > 0) sessions in
        if length validSessions = 0 then (db, 0, [])
        else
          let summaries = map (buildSummarizedSession parseJson stringify) validSessions
          in (bulkSaveSummarizedSessions summaries db, length summaries, summaries))"

definition CHUNK_SIZE :: nat where
  "CHUNK_SIZE = 50"

function chunkLoop ::
  "(string \<Rightarrow> ParsedEvent option) \<Rightarrow> ((string \<times> nat) list \<Rightarrow> string) \<Rightarrow> UserSession list \<Rightarrow> nat
     \<Rightarrow> Database \<times> nat \<times> SummarizedSession list \<Rightarrow> Database \<times> nat \<times> SummarizedSession list" where
  "chunkLoop parseJson stringify validSessions i acc =
     (if i < length validSessions then
        (case acc of (db, totalProcessed, written) \<Rightarrow>
           let chunk = take CHUNK_SIZE (drop i validSessions);
               summaries = map (buildSummarizedSession parseJson stringify) chunk
           in chunkLoop parseJson stringify validSessions (i + CHUNK_SIZE)
                (bulkSaveSummarizedSessions summaries db, totalProcessed + length summaries,
                 written @ summaries))
      else acc)"
  by pat_completeness auto
termination
  by (relation "measure (\<lambda>(parseJson, stringify, validSessions, i, acc). length validSessions - i)")
    (auto simp: CHUNK_SIZE_def)

declare chunkLoop.simps [simp del]

definition aggregateAllData ::
  "(string \<Rightarrow> ParsedEvent option) \<Rightarrow> ((string \<times> nat) list \<Rightarrow> string) \<Rightarrow> Database
     \<Rightarrow> Database \<times> nat \<times> SummarizedSession list" where
  "aggregateAllData parseJson stringify db =
     (let allSessions = getAllSessions db;
          validSessions = filter (\<lambda>s. length (events s) > 0) allSessions
      in if length validSessions = 0 then (db, 0, [])
         else chunkLoop parseJson stringify validSessions 0 (db, 0, []))"

subsection \<open>Hour rollover\<close>

text \<open>
  The state the trigger works on: the watermark in \<open>localStorage\<close> (\<open>None\<close> when the key
  is absent), the database, and the list of hours that \<open>aggregateHourlyData\<close> has been
  called with, in call order.
\<close>

record AggregatorState =
  lastProcessedHour :: "int option"
  database :: Database
  aggregatedHours :: "int list"

function aggregateMissed ::
  "(string \<Rightarrow> ParsedEvent option) \<Rightarrow> ((string \<times> nat) list \<Rightarrow> string) \<Rightarrow> int \<Rightarrow> int
     \<Rightarrow> AggregatorState \<Rightarrow> AggregatorState" where
  "aggregateMissed parseJson stringify hour currentHour st =
     (if hour < currentHour then
        aggregateMissed parseJson stringify (hour + HOUR_MS) currentHour
          (st\<lparr>database := fst (aggregateHourlyData parseJson stringify hour (database st)),
              aggregatedHours := aggregatedHours st @ [hour]\<rparr>)
      else st)"
  by pat_completeness auto
termination
  by (relation "measure (\<lambda>(parseJson, stringify, hour, currentHour, st). nat (currentHour - hour))")
    (auto simp: HOUR_MS_def)

declare aggregateMissed.simps [simp del]

definition checkAndTriggerAggregation ::
  "(string \<Rightarrow> ParsedEvent option) \<Rightarrow> ((string \<times> nat) list \<Rightarrow> string) \<Rightarrow> int \<Rightarrow> int
     \<Rightarrow> AggregatorState \<Rightarrow> AggregatorState" where
  "checkAndTriggerAggregation parseJson stringify tz now st =
     (let currentHour = getHourFloor tz now in
      case lastProcessedHour st of
        None \<Rightarrow> st\<lparr>lastProcessedHour := Some currentHour\<rparr>
      | Some lastProcessed \<Rightarrow>
          if currentHour > lastProcessed then
            (aggregateMissed parseJson stringify lastProcessed currentHour st)
              \<lparr>lastProcessedHour := Some currentHour\<rparr>
          else st)"

text \<open>
  The hours the specification names for a rollover: the whole hours from the old
  watermark (included) up to the current hour floor (excluded), one hour apart.
\<close>

definition wholeHoursFrom :: "int \<Rightarrow> int \<Rightarrow> int list" where
  "wholeHoursFrom watermark currentHour =
     map (\<lambda>k. watermark + int k * HOUR_MS)
       [0 ..< nat ((currentHour - watermark + HOUR_MS - 1) div HOUR_MS)]"

section \<open>Session lifecycle manager (routes/+page.svelte, main.ts)\<close>

subsection \<open>State\<close>

text \<open>
  An entry of the map \<open>activeSessions\<close>, which is kept as a list of (uid, entry) pairs in
  insertion order with one pair per uid.
\<close>

record SessionData =
  sessionId_mem :: string
  startTime :: int
  lastSeen_mem :: int

definition MIN_SESSION_DURATION :: int where
  "MIN_SESSION_DURATION = 1000"

definition SESSION_TIMEOUT :: int where
  "SESSION_TIMEOUT = 5000"

text \<open>
  The calls the page makes to the store and to the aggregator. They are not awaited
  (except \<open>addAnalysisLog\<close>), so the page's functions return the list of calls they have
  issued, in order.
\<close>

datatype DbCall =
    StartSession string
  | EndSession string
  | DeleteSession string
  | AddAnalysisLog string string string string
  | CheckAndTriggerAggregation

fun isAddAnalysisLog :: "DbCall \<Rightarrow> bool" where
  "isAddAnalysisLog (AddAnalysisLog sid uid promptText resultText) = True"
| "isAddAnalysisLog other = False"

text \<open>
  A call is carried out by the store at a time of its own, which is the \<open>Date.now()\<close> the
  store then reads.
\<close>

fun performDbCall :: "DbCall \<Rightarrow> int \<Rightarrow> Database \<Rightarrow> Database" where
  "performDbCall (StartSession sid) now db = startSession sid now db"
| "performDbCall (EndSession sid) now db = endSession sid now db"
| "performDbCall (DeleteSession sid) now db = deleteSession sid db"
| "performDbCall (AddAnalysisLog sid uid promptText resultText) now db =
     addAnalysisLog sid uid promptText resultText now db"
| "performDbCall CheckAndTriggerAggregation now db = db"

text \<open>
  The page's variables, as far as the session manager uses them. \<open>analysisTimeouts\<close> is the
  number of pending \<open>setTimeout(loop, 0)\<close> timers and \<open>startTimers\<close> that of pending
  \<open>setTimeout(startAnalysisLoop, 1000)\<close> timers; \<open>inFlight\<close> holds, for every call of
  \<open>analyzeFrameWithNanoStreaming\<close> that has not settled yet, the tracks it was given (the
  run of \<open>loop\<close> that made the call is suspended at its \<open>await\<close>); \<open>trackerDisposed\<close>
  records that \<open>onDestroy\<close> has run.
\<close>

record PageState =
  activeSessions :: "(string \<times> SessionData) list"
  isAnalyzing :: bool
  analysisTimeouts :: nat
  startTimers :: nat
  inFlight :: "LocalTrack list list"
  trackerDisposed :: bool
  dbCalls :: "DbCall list"
  sessionIdCounter :: nat

definition initialPage :: PageState where
  "initialPage =
     \<lparr> activeSessions = [], isAnalyzing = False, analysisTimeouts = 0, startTimers = 0,
       inFlight = [], trackerDisposed = False, dbCalls = [], sessionIdCounter = 0 \<rparr>"

subsection \<open>cleanupStaleSessions and onDestroy\<close>

text \<open>
  The \<open>forEach\<close> of \<open>cleanupStaleSessions\<close> for one entry: the store call it issues, if any,
  and whether the uid is pushed to \<open>toRemove\<close>.
\<close>

definition cleanupEntry :: "int \<Rightarrow> string set \<Rightarrow> string \<times> SessionData \<Rightarrow> DbCall list \<times> bool" where
  "cleanupEntry now currentTrackIds entry =
     (case entry of (uid, sessionData) \<Rightarrow>
        if uid \<notin> currentTrackIds then
          (let timeSinceLastSeen = now - lastSeen_mem sessionData in
           if timeSinceLastSeen > SESSION_TIMEOUT then
             (let sessionDuration = now - startTime sessionData in
              if sessionDuration \<ge> MIN_SESSION_DURATION
              then ([EndSession (sessionId_mem sessionData)], True)
              else ([DeleteSession (sessionId_mem sessionData)], True))
           else ([], False))
        else ([], False))"

definition cleanupStaleSessions :: "int \<Rightarrow> string set \<Rightarrow> PageState \<Rightarrow> PageState" where
  "cleanupStaleSessions now currentTrackIds st =
     (let toRemove = map fst (filter (\<lambda>e. snd (cleanupEntry now currentTrackIds e)) (activeSessions st))
      in st\<lparr>activeSessions := filter (\<lambda>e. fst e \<notin> set toRemove) (activeSessions st),
            dbCalls := dbCalls st @
                       concat (map (\<lambda>e. fst (cleanupEntry now currentTrackIds e)) (activeSessions st))\<rparr>)"

text \<open>
  \<open>onDestroy\<close>: the pending loop timer is cleared, the flags are reset, the tracker is
  disposed, and every active session is ended or deleted; the map itself is left as it
  is.
\<close>

definition destroyEntry :: "int \<Rightarrow> string \<times> SessionData \<Rightarrow> DbCall" where
  "destroyEntry now entry =
     (case entry of (uid, sessionData) \<Rightarrow>
        let duration = now - startTime sessionData in
        if duration \<ge> MIN_SESSION_DURATION then EndSession (sessionId_mem sessionData)
        else DeleteSession (sessionId_mem sessionData))"

definition onDestroy :: "int \<Rightarrow> PageState \<Rightarrow> PageState" where
  "onDestroy now st =
     st\<lparr>analysisTimeouts := analysisTimeouts st - 1,
        isAnalyzing := False,
        trackerDisposed := True,
        dbCalls := dbCalls st @ map (destroyEntry now) (activeSessions st)\<rparr>"

subsection \<open>analyzeFrameWithNanoStreaming\<close>

text \<open>
  One entry of the parsed result array: the \<open>uid\<close> (absent, or a string) and the
  attribute fields that are neither \<open>null\<close> nor undefined, in the order of the page's
  field list.
\<close>

record NanoAnalysisResult =
  uid :: "string option"
  attributes :: "(string \<times> string) list"

record NanoStreamingResponse =
  results :: "NanoAnalysisResult list"
  prompt_used :: string

text \<open>
  What the inference engine does with one call: the API is missing or no request session
  can be obtained (the function throws before its \<open>try\<close>); drawing, prompting or reading
  the stream throws (inside the \<open>try\<close>); or the stream ends with a full text.
\<close>

datatype EngineOutcome = Unavailable | PromptFails | Output string

datatype AnalysisError = PromptApiError

text \<open>
  The functions of the platform the page and \<open>main.ts\<close> rely on: the formatting of the
  prompt, the stripping of code fences with \<open>trim\<close>, \<open>JSON.parse\<close> on the cleaned text
  (\<open>None\<close> when it throws), \<open>JSON.stringify\<close> of a result object, and the sequence of
  values of \<open>generateID('long')\<close>.
\<close>

record Platform =
  promptFor :: "LocalTrack list \<Rightarrow> string"
  cleanText :: "string \<Rightarrow> string"
  parseResults :: "string \<Rightarrow> NanoAnalysisResult list option"
  stringifyFields :: "(string \<times> string) list \<Rightarrow> string"
  longId :: "nat \<Rightarrow> string"

definition rawResult :: "string \<Rightarrow> NanoAnalysisResult" where
  "rawResult cleanResult =
     \<lparr> uid = Some ''raw'',
       attributes = [(''age'', ''unknown''), (''sex'', ''unknown''), (''fashion'', cleanResult),
                 (''emotion'', ''unknown''), (''action'', ''unknown''), (''direction'', ''unknown''),
                 (''accessories'', ''unknown''), (''posture'', ''unknown'')] \<rparr>"

definition analyzeFrameWithNanoStreaming ::
  "Platform \<Rightarrow> LocalTrack list \<Rightarrow> EngineOutcome \<Rightarrow> AnalysisError + NanoStreamingResponse" where
  "analyzeFrameWithNanoStreaming pf detected outcome =
     (let promptText = promptFor pf detected in
      case outcome of
        Unavailable \<Rightarrow> Inl PromptApiError
      | PromptFails \<Rightarrow> Inr \<lparr> results = [], prompt_used = promptText \<rparr>
      | Output fullText \<Rightarrow>
          (let cleanResult = cleanText pf fullText in
           case parseResults pf cleanResult of
             Some parsed \<Rightarrow> Inr \<lparr> results = parsed, prompt_used = promptText \<rparr>
           | None \<Rightarrow> Inr \<lparr> results = [rawResult cleanResult], prompt_used = promptText \<rparr>))"

subsection \<open>The analysis loop\<close>

text \<open>
  What one run of \<open>loop\<close> reads: the values of the tracking store, the \<open>Date.now()\<close> of
  \<open>cleanupStaleSessions\<close> and that of the session management, and whether the video is
  ready.
\<close>

record CycleInput =
  currentTracks :: "LocalTrack list"
  cleanupNow :: int
  sessionNow :: int
  videoReady :: bool

definition manageSession :: "Platform \<Rightarrow> int \<Rightarrow> PageState \<Rightarrow> LocalTrack \<Rightarrow> PageState" where
  "manageSession pf now st t =
     (let uid = track_id t in
      case map_of (activeSessions st) uid of
        None \<Rightarrow>
          (let newSessionId = longId pf (sessionIdCounter st) in
           st\<lparr>activeSessions := activeSessions st @
                  [(uid, \<lparr> sessionId_mem = newSessionId, startTime = now, lastSeen_mem = now \<rparr>)],
              dbCalls := dbCalls st @ [StartSession newSessionId],
              sessionIdCounter := Suc (sessionIdCounter st)\<rparr>)
      | Some sessionData \<Rightarrow>
          st\<lparr>activeSessions :=
                map (\<lambda>(k, v). if k = uid then (k, v\<lparr>lastSeen_mem := now\<rparr>) else (k, v))
                  (activeSessions st)\<rparr>)"

definition logResult :: "Platform \<Rightarrow> string \<Rightarrow> PageState \<Rightarrow> NanoAnalysisResult \<Rightarrow> PageState" where
  "logResult pf promptText st res =
     (case uid res of
        None \<Rightarrow> st
      | Some u \<Rightarrow>
          (case map_of (activeSessions st) u of
             None \<Rightarrow> st
           | Some sessionData \<Rightarrow>
               if u \<noteq> [] then
                 st\<lparr>dbCalls := dbCalls st @
                       [AddAnalysisLog (sessionId_mem sessionData) u promptText
                          (stringifyFields pf (attributes res)),
                        CheckAndTriggerAggregation]\<rparr>
               else st))"

text \<open>
  After the \<open>try\<close> and \<open>catch\<close> of \<open>loop\<close>: the next run is scheduled while \<open>isAnalyzing\<close>
  holds.
\<close>

definition loopEnd :: "PageState \<Rightarrow> PageState" where
  "loopEnd st = (if isAnalyzing st then st\<lparr>analysisTimeouts := analysisTimeouts st + 1\<rparr> else st)"

text \<open>
  A run of \<open>loop\<close> up to its \<open>await\<close>. Once \<open>onDestroy\<close> has disposed the tracker and
  stopped the tracking interval the store is empty, whatever it held before. If the
  call is made the run is suspended; otherwise it ends at once.
\<close>

definition loop :: "Platform \<Rightarrow> CycleInput \<Rightarrow> PageState \<Rightarrow> PageState" where
  "loop pf inp st =
     (if \<not> isAnalyzing st then st
      else
        let tracks = (if trackerDisposed st then [] else currentTracks inp);
            currentTrackIds = set (map track_id (filter (\<lambda>t. track_id t \<noteq> []) tracks));
            st1 = cleanupStaleSessions (cleanupNow inp) currentTrackIds st
        in if length tracks > 0 then
             (let validTracks = filter (\<lambda>t. track_id t \<noteq> [] \<and> isConfirmed t \<and> matched t) tracks in
              if length validTracks > 0 then
                (let st2 = foldl (manageSession pf (sessionNow inp)) st1 validTracks in
                 if videoReady inp then st2\<lparr>inFlight := inFlight st2 @ [validTracks]\<rparr>
                 else loopEnd st2)
              else loopEnd st1)
           else loopEnd st1)"

text \<open>
  The rest of a suspended run, once its call has settled with \<open>outcome\<close>. A rejection
  lands in the \<open>catch\<close> of \<open>loop\<close>, which only logs it. The run also waits for the
  store while it logs the results; those waits start no inference call and are not
  split off.
\<close>

definition resumeLoop :: "Platform \<Rightarrow> LocalTrack list \<Rightarrow> EngineOutcome \<Rightarrow> PageState \<Rightarrow> PageState" where
  "resumeLoop pf validTracks outcome st =
     (case analyzeFrameWithNanoStreaming pf validTracks outcome of
        Inl err \<Rightarrow> loopEnd st
      | Inr analysisResponse \<Rightarrow>
          loopEnd (foldl (logResult pf (prompt_used analysisResponse)) st (results analysisResponse)))"

definition startAnalysisLoop :: "Platform \<Rightarrow> CycleInput \<Rightarrow> PageState \<Rightarrow> PageState" where
  "startAnalysisLoop pf inp st =
     (if isAnalyzing st then st else loop pf inp (st\<lparr>isAnalyzing := True\<rparr>))"

definition handleCameraReady :: "PageState \<Rightarrow> PageState" where
  "handleCameraReady st = st\<lparr>startTimers := startTimers st + 1\<rparr>"

text \<open>
  What can happen to the page, one event at a time: the camera becomes ready (while the
  page exists), a start timer or a loop timer fires, the \<open>i\<close>-th outstanding call settles,
  the page is destroyed. An event that is not possible in a state leaves it unchanged.
\<close>

datatype PageEvent =
    CameraReady
  | StartTimerFires CycleInput
  | LoopTimerFires CycleInput
  | CallSettles nat EngineOutcome
  | Destroy int

fun pageStep :: "Platform \<Rightarrow> PageState \<Rightarrow> PageEvent \<Rightarrow> PageState" where
  "pageStep pf st CameraReady = (if trackerDisposed st then st else handleCameraReady st)"
| "pageStep pf st (StartTimerFires inp) =
     (if startTimers st = 0 then st
      else startAnalysisLoop pf inp (st\<lparr>startTimers := startTimers st - 1\<rparr>))"
| "pageStep pf st (LoopTimerFires inp) =
     (if analysisTimeouts st = 0 then st
      else loop pf inp (st\<lparr>analysisTimeouts := analysisTimeouts st - 1\<rparr>))"
| "pageStep pf st (CallSettles i outcome) =
     (if i < length (inFlight st)
      then resumeLoop pf (inFlight st ! i) outcome
             (st\<lparr>inFlight := take i (inFlight st) @ drop (Suc i) (inFlight st)\<rparr>)
      else st)"
| "pageStep pf st (Destroy now) = onDestroy now st"

definition runPage :: "Platform \<Rightarrow> PageEvent list \<Rightarrow> PageState \<Rightarrow> PageState" where
  "runPage pf evs st = foldl (pageStep pf) st evs"

text \<open>
  The inference failed: the call threw, or its output did not parse as JSON.
\<close>

definition inferenceFailed :: "Platform \<Rightarrow> EngineOutcome \<Rightarrow> bool" where
  "inferenceFailed pf outcome =
     (case outcome of
        Unavailable \<Rightarrow> True
      | PromptFails \<Rightarrow> True
      | Output fullText \<Rightarrow> parseResults pf (cleanText pf fullText) = None)"

text \<open>
  What \<open>generateID()\<close> returns for a person: the first eight characters of a UUID in
  upper case, so eight characters, each a digit or a letter from A to F.
\<close>

definition isShortId :: "string \<Rightarrow> bool" where
  "isShortId s = (length s = 8 \<and> list_all (\<lambda>c. c \<in> set ''0123456789ABCDEF'') s)"

subsection \<open>Invariant of the analysis loop\<close>

text \<open>
  At most one call is outstanding; and as long as the page has not been destroyed, a
  started loop is in exactly one place (suspended at its call, or waiting for its timer),
  while a loop that has not been started is nowhere.
\<close>

definition loopInvariant :: "PageState \<Rightarrow> bool" where
  "loopInvariant st =
     (length (inFlight st) \<le> 1 \<and>
      (trackerDisposed st \<or>
       (if isAnalyzing st then length (inFlight st) + analysisTimeouts st = 1
        else inFlight st = [] \<and> analysisTimeouts st = 0)))"

section \<open>Concrete inputs for the aggregator and the session manager\<close>

definition noParse :: "string \<Rightarrow> ParsedEvent option" where
  "noParse s = None"

definition noText :: "(string \<times> nat) list \<Rightarrow> string" where
  "noText freq = []"

definition freshAggregator :: AggregatorState where
  "freshAggregator =
     \<lparr> lastProcessedHour = None, database = emptyDatabase, aggregatedHours = [] \<rparr>"

definition markedAggregator :: AggregatorState where
  "markedAggregator =
     \<lparr> lastProcessedHour = Some 3600000, database = emptyDatabase, aggregatedHours = [] \<rparr>"

text \<open>Two stored sessions that began in the same hour, one with an event and one without.\<close>

definition visitedSession :: UserSession where
  "visitedSession =
     \<lparr> sessionId = ''session-1'', firstSeen_db = 1000, lastSeen_db = 46000, duration = 45,
       events = [\<lparr> timestamp = 2000, targetUid = ''0A1B2C3D'', prompt = ''p'', result = ''r'' \<rparr>] \<rparr>"

definition silentSession :: UserSession where
  "silentSession =
     \<lparr> sessionId = ''session-2'', firstSeen_db = 5000, lastSeen_db = 12000, duration = 7,
       events = [] \<rparr>"

definition twoSessions :: Database where
  "twoSessions = \<lparr> sessions = [visitedSession, silentSession], summarized_sessions = [] \<rparr>"

text \<open>
  A platform whose parser rejects every text, a confirmed and matched track, and the
  inputs of three runs of \<open>loop\<close>: one that sees the track while the video is not ready,
  one that sees it with the video ready, and one that sees no track at a later time.
\<close>

definition examplePlatform :: Platform where
  "examplePlatform =
     \<lparr> promptFor = (\<lambda>tracks. ''Describe persons''), cleanText = (\<lambda>s. s),
       parseResults = (\<lambda>s. None), stringifyFields = (\<lambda>fs. []),
       longId = (\<lambda>k. replicate (Suc k) (CHR ''s'')) \<rparr>"

definition visitor :: LocalTrack where
  "visitor =
     \<lparr> track_id = ''0A1B2C3D'', bbox = (0, 0, 1 / 2, 1 / 2), score = 3 / 4, firstSeen = 0,
       lastSeen = 0, matched = True, consecutiveFrames = 3, isConfirmed = True \<rparr>"

definition glimpse :: "int \<Rightarrow> CycleInput" where
  "glimpse t = \<lparr> currentTracks = [visitor], cleanupNow = t, sessionNow = t, videoReady = False \<rparr>"

definition sighting :: "int \<Rightarrow> CycleInput" where
  "sighting t = \<lparr> currentTracks = [visitor], cleanupNow = t, sessionNow = t, videoReady = True \<rparr>"

definition nobody :: "int \<Rightarrow> CycleInput" where
  "nobody t = \<lparr> currentTracks = [], cleanupNow = t, sessionNow = t, videoReady = True \<rparr>"

text \<open>The page with the visitor's session open since 0 ms and last refreshed at \<open>t\<close>.\<close>

definition opened :: "int \<Rightarrow> PageState" where
  "opened t =
     initialPage\<lparr> activeSessions :=
                    [(''0A1B2C3D'', \<lparr> sessionId_mem = ''s'', startTime = 0, lastSeen_mem = t \<rparr>)],
                  isAnalyzing := True, analysisTimeouts := 1,
                  dbCalls := [StartSession ''s''], sessionIdCounter := 1 \<rparr>"



section \<open>Properties of the IoU matcher\<close>














lemma iou_spec_examples:
  "calculateIoU (0, 0, 2, 2) (1, 0, 2, 2) = 1 / 3"
  "calculateIoU (0, 0, 4, 4) (1, 1, 2, 2) = 1 / 4"
  by (simp_all add: calculateIoU_def)




section \<open>Properties of the identity tracker\<close>


lemma findBest_index:
  "findBest b ts i (v0, m0) = (v, Some j) \<Longrightarrow> m0 = Some j \<or> (i \<le> j \<and> j < i + length ts)"
proof (induction ts arbitrary: i v0 m0)
  case Nil
  then show ?case by simp
next
  case (Cons t ts)
  show ?case
  proof (cases "calculateIoU (bbox t) b > v0")
    case True
    with Cons.prems have "findBest b ts (Suc i) (calculateIoU (bbox t) b, Some i) = (v, Some j)"
      by (simp add: Let_def)
    from Cons.IH[OF this] show ?thesis by auto
  next
    case False
    with Cons.prems have "findBest b ts (Suc i) (v0, m0) = (v, Some j)"
      by (simp add: Let_def)
    from Cons.IH[OF this] show ?thesis by auto
  qed
qed

lemma findBest_in_range:
  "findBest b ts 0 (0, None) = (v, Some j) \<Longrightarrow> j < length ts"
  using findBest_index[of b ts 0 0 None v j] by simp

lemma evolves_refl: "evolves t t"
  by (simp add: evolves_def)

lemma evolves_trans: "evolves a b \<Longrightarrow> evolves b c \<Longrightarrow> evolves a c"
  by (auto simp: evolves_def)

lemma evolves_update: "evolves t (updateTrack cfg n d t)"
  by (simp add: evolves_def updateTrack_def Let_def)

lemma evolves_reset: "evolves t (t\<lparr>matched := False\<rparr>)"
  by (simp add: evolves_def)

lemma extends_refl: "extends gen st st"
  by (auto simp: extends_def intro: evolves_refl)

lemma extends_trans:
  assumes "extends gen a b" "extends gen b c"
  shows "extends gen a c"
  unfolding extends_def
proof (intro conjI ballI)
  show "snd a \<le> snd c" using assms by (auto simp: extends_def)
next
  fix t'' assume "t'' \<in> set (fst c)"
  with assms(2) consider
    (old) t' where "t' \<in> set (fst b)" "evolves t' t''"
    | (new) k where "snd b \<le> k" "k < snd c" "track_id t'' = gen k"
    by (auto simp: extends_def)
  then show "(\<exists>t\<in>set (fst a). evolves t t'') \<or> (\<exists>k\<ge>snd a. k < snd c \<and> track_id t'' = gen k)"
  proof cases
    case old
    from assms(1) old(1) consider
      (old2) t where "t \<in> set (fst a)" "evolves t t'"
      | (new2) k where "snd a \<le> k" "k < snd b" "track_id t' = gen k"
      by (auto simp: extends_def)
    then show ?thesis
    proof cases
      case old2
      then show ?thesis using old(2) evolves_trans by blast
    next
      case new2
      have "track_id t'' = gen k" using old(2) new2(3) by (simp add: evolves_def)
      moreover have "k < snd c" using new2(2) assms(2) by (simp add: extends_def)
      ultimately show ?thesis using new2(1) by blast
    qed
  next
    case new
    moreover have "snd a \<le> k" using new(1) assms(1) by (simp add: extends_def)
    ultimately show ?thesis by blast
  qed
qed

lemma matchDetection_cases:
  "matchDetection cfg gen n (ts, c) d = (ts, c) \<or>
   (\<exists>i < length ts. matchDetection cfg gen n (ts, c) d = (ts[i := updateTrack cfg n d (ts ! i)], c)) \<or>
   matchDetection cfg gen n (ts, c) d = (ts @ [newTrack (gen c) n d], Suc c)"
proof (cases "findBest (fst d) ts 0 (0, None)")
  case (Pair v m)
  show ?thesis
  proof (cases m)
    case None
    then show ?thesis using Pair by (simp add: matchDetection_def)
  next
    case (Some j)
    then have "j < length ts" using Pair findBest_in_range by blast
    then show ?thesis using Pair Some by (auto simp: matchDetection_def)
  qed
qed

lemma extends_matchDetection: "extends gen st (matchDetection cfg gen n st d)"
proof (cases st)
  case (Pair ts c)
  from matchDetection_cases[of cfg gen n ts c d] show ?thesis
  proof (elim disjE exE conjE)
    assume "matchDetection cfg gen n (ts, c) d = (ts, c)"
    then show ?thesis by (simp add: Pair extends_refl)
  next
    fix i assume i: "i < length ts"
      and m: "matchDetection cfg gen n (ts, c) d = (ts[i := updateTrack cfg n d (ts ! i)], c)"
    have "\<exists>t\<in>set ts. evolves t t'" if "t' \<in> set (ts[i := updateTrack cfg n d (ts ! i)])" for t'
    proof -
      from that have "t' = updateTrack cfg n d (ts ! i) \<or> t' \<in> set ts"
        using set_update_subset_insert[of ts i] by auto
      then show ?thesis using i evolves_update evolves_refl nth_mem by blast
    qed
    then show ?thesis by (simp add: Pair m extends_def)
  next
    assume m: "matchDetection cfg gen n (ts, c) d = (ts @ [newTrack (gen c) n d], Suc c)"
    have "track_id (newTrack (gen c) n d) = gen c" by (simp add: newTrack_def)
    then show ?thesis by (auto simp: Pair m extends_def intro: evolves_refl)
  qed
qed

lemma extends_matchAll: "extends gen st (matchAll cfg gen n ds st)"
  unfolding matchAll_def
proof (induction ds arbitrary: st)
  case Nil
  then show ?case by (simp add: extends_refl)
next
  case (Cons d ds)
  have "extends gen st (matchDetection cfg gen n st d)" by (rule extends_matchDetection)
  moreover have "extends gen (matchDetection cfg gen n st d)
      (foldl (matchDetection cfg gen n) (matchDetection cfg gen n st d) ds)" by (rule Cons.IH)
  ultimately show ?case using extends_trans by simp
qed

lemma extends_reset: "extends gen (ts, c) (map (\<lambda>t. t\<lparr>matched := False\<rparr>) ts, c)"
  by (auto simp: extends_def intro: evolves_reset)

lemma extends_subset:
  "extends gen a (ts, c) \<Longrightarrow> set ts' \<subseteq> set ts \<Longrightarrow> extends gen a (ts', c)"
  by (auto simp: extends_def)

lemma extends_matchedTracks:
  "extends gen (localTracks st, idCounter st) (matchedTracks cfg gen f st)"
  unfolding matchedTracks_def
  using extends_trans[OF extends_reset extends_matchAll] by blast

lemma matchedTracks_lastVideoTime [simp]:
  "matchedTracks cfg gen f (st\<lparr>lastVideoTime := x\<rparr>) = matchedTracks cfg gen f st"
  by (simp add: matchedTracks_def)

lemma processFrame_skip:
  "\<not> frameProcessed f st \<Longrightarrow>
     localTracks (processFrame cfg gen f st) = localTracks st \<and>
     idCounter (processFrame cfg gen f st) = idCounter st"
  by (auto simp: frameProcessed_def processFrame_def Let_def)

lemma processFrame_run:
  "frameProcessed f st \<Longrightarrow>
     localTracks (processFrame cfg gen f st) =
       pruneTracks cfg (dateNow f) (fst (matchedTracks cfg gen f st)) \<and>
     idCounter (processFrame cfg gen f st) = snd (matchedTracks cfg gen f st)"
  by (auto simp: frameProcessed_def processFrame_def Let_def split: prod.splits)

lemma extends_processFrame:
  "extends gen (localTracks st, idCounter st)
     (localTracks (processFrame cfg gen f st), idCounter (processFrame cfg gen f st))"
proof (cases "frameProcessed f st")
  case False
  then show ?thesis using processFrame_skip[OF False] by (simp add: extends_refl)
next
  case True
  have "extends gen (localTracks st, idCounter st)
          (fst (matchedTracks cfg gen f st), snd (matchedTracks cfg gen f st))"
    using extends_matchedTracks by simp
  then have "extends gen (localTracks st, idCounter st)
          (pruneTracks cfg (dateNow f) (fst (matchedTracks cfg gen f st)), snd (matchedTracks cfg gen f st))"
    by (rule extends_subset) (simp add: pruneTracks_def)
  then show ?thesis using processFrame_run[OF True] by simp
qed

lemma extends_trackerStep:
  "extends gen (localTracks st, idCounter st)
     (localTracks (trackerStep cfg gen st call), idCounter (trackerStep cfg gen st call))"
proof (cases call)
  case (Initialize created)
  then show ?thesis by (simp add: initializeTracker_def extends_refl)
next
  case (Frame f)
  then show ?thesis by (simp add: extends_processFrame)
next
  case Dispose
  then show ?thesis by (simp add: disposeTracker_def extends_def)
qed

lemma extends_runTracker:
  "extends gen (localTracks st, idCounter st)
     (localTracks (runTracker cfg gen calls st), idCounter (runTracker cfg gen calls st))"
  unfolding runTracker_def
proof (induction calls arbitrary: st)
  case Nil
  then show ?case by (simp add: extends_refl)
next
  case (Cons c cs)
  show ?case using extends_trans[OF extends_trackerStep Cons.IH] by simp
qed


lemma track_id_updateTrack [simp]: "track_id (updateTrack cfg n d t) = track_id t"
  by (simp add: updateTrack_def Let_def)

lemma idsDrawn_matchDetection:
  assumes "inj gen" "idsDrawn gen st"
  shows "idsDrawn gen (matchDetection cfg gen n st d)"
proof (cases st)
  case (Pair ts c)
  from assms(2) have dist: "distinct (map track_id ts)"
    and below: "\<forall>t\<in>set ts. \<exists>k<c. track_id t = gen k"
    by (simp_all add: idsDrawn_def Pair)
  from matchDetection_cases[of cfg gen n ts c d] show ?thesis
  proof (elim disjE exE conjE)
    assume "matchDetection cfg gen n (ts, c) d = (ts, c)"
    then show ?thesis using assms(2) by (simp add: Pair)
  next
    fix i assume i: "i < length ts"
      and m: "matchDetection cfg gen n (ts, c) d = (ts[i := updateTrack cfg n d (ts ! i)], c)"
    have ids: "map track_id (ts[i := updateTrack cfg n d (ts ! i)]) = map track_id ts"
      using i by (simp add: map_update list_update_same_conv)
    have "\<exists>k<c. track_id t' = gen k" if "t' \<in> set (ts[i := updateTrack cfg n d (ts ! i)])" for t'
    proof -
      from that have "track_id t' \<in> set (map track_id (ts[i := updateTrack cfg n d (ts ! i)]))"
        by (simp del: map_update)
      then have "track_id t' \<in> track_id ` set ts" by (simp add: ids del: map_update)
      then show ?thesis using below by auto
    qed
    then show ?thesis using dist ids by (simp add: Pair m idsDrawn_def del: map_update)
  next
    assume m: "matchDetection cfg gen n (ts, c) d = (ts @ [newTrack (gen c) n d], Suc c)"
    have nid: "track_id (newTrack (gen c) n d) = gen c" by (simp add: newTrack_def)
    have "gen c \<notin> track_id ` set ts"
    proof
      assume "gen c \<in> track_id ` set ts"
      then obtain k where "k < c" "gen c = gen k" using below by auto
      then show False using assms(1) by (auto dest: injD)
    qed
    moreover have "\<exists>k<Suc c. track_id t = gen k" if "t \<in> set ts" for t
      using below that less_Suc_eq by auto
    ultimately show ?thesis using dist nid by (auto simp: Pair m idsDrawn_def)
  qed
qed

lemma idsDrawn_matchAll:
  "inj gen \<Longrightarrow> idsDrawn gen st \<Longrightarrow> idsDrawn gen (matchAll cfg gen n ds st)"
  unfolding matchAll_def
  by (induction ds arbitrary: st) (simp_all add: idsDrawn_matchDetection)

lemma idsDrawn_reset:
  "idsDrawn gen (ts, c) \<Longrightarrow> idsDrawn gen (map (\<lambda>t. t\<lparr>matched := False\<rparr>) ts, c)"
  by (simp add: idsDrawn_def comp_def)

lemma idsDrawn_filter:
  "idsDrawn gen (ts, c) \<Longrightarrow> idsDrawn gen (filter P ts, c)"
  by (simp add: idsDrawn_def distinct_map_filter)

lemma idsDrawn_matchedTracks:
  "inj gen \<Longrightarrow> idsDrawn gen (localTracks st, idCounter st) \<Longrightarrow>
     idsDrawn gen (matchedTracks cfg gen f st)"
  unfolding matchedTracks_def by (intro idsDrawn_matchAll idsDrawn_reset)

lemma idsDrawn_processFrame:
  assumes "inj gen" "idsDrawn gen (localTracks st, idCounter st)"
  shows "idsDrawn gen (localTracks (processFrame cfg gen f st), idCounter (processFrame cfg gen f st))"
proof (cases "frameProcessed f st")
  case False
  then show ?thesis using processFrame_skip[OF False] assms(2) by simp
next
  case True
  have "idsDrawn gen (fst (matchedTracks cfg gen f st), snd (matchedTracks cfg gen f st))"
    using idsDrawn_matchedTracks[OF assms] by simp
  then show ?thesis using processFrame_run[OF True]
    by (simp add: pruneTracks_def idsDrawn_filter)
qed

lemma idsDrawn_trackerStep:
  assumes "inj gen" "idsDrawn gen (localTracks st, idCounter st)"
  shows "idsDrawn gen (localTracks (trackerStep cfg gen st call), idCounter (trackerStep cfg gen st call))"
proof (cases call)
  case (Initialize created)
  then show ?thesis using assms(2) by (simp add: initializeTracker_def)
next
  case (Frame f)
  then show ?thesis using idsDrawn_processFrame[OF assms] by simp
next
  case Dispose
  then show ?thesis by (simp add: disposeTracker_def idsDrawn_def)
qed

lemma idsDrawn_runTracker:
  "inj gen \<Longrightarrow> idsDrawn gen (localTracks st, idCounter st) \<Longrightarrow>
   idsDrawn gen (localTracks (runTracker cfg gen calls st), idCounter (runTracker cfg gen calls st))"
  unfolding runTracker_def
  by (induction calls arbitrary: st) (simp_all add: idsDrawn_trackerStep)

lemma idsDrawn_initial: "idsDrawn gen (localTracks initialTracker, idCounter initialTracker)"
  by (simp add: initialTracker_def idsDrawn_def)


lemma confirmedByCount_update:
  "confirmedByCount cfg t \<Longrightarrow> confirmedByCount cfg (updateTrack cfg n d t)"
  by (auto simp: confirmedByCount_def updateTrack_def Let_def)

lemma confirmedByCount_new: "confirmedByCount cfg (newTrack i n d)"
  by (simp add: confirmedByCount_def newTrack_def)

lemma confirmedByCount_matchDetection:
  assumes "list_all (confirmedByCount cfg) ts"
  shows "list_all (confirmedByCount cfg) (fst (matchDetection cfg gen n (ts, c) d))"
  using matchDetection_cases[of cfg gen n ts c d]
proof (elim disjE exE conjE)
  assume "matchDetection cfg gen n (ts, c) d = (ts, c)"
  then show ?thesis using assms by simp
next
  fix i assume i: "i < length ts"
    and m: "matchDetection cfg gen n (ts, c) d = (ts[i := updateTrack cfg n d (ts ! i)], c)"
  have "confirmedByCount cfg (ts ! i)" using assms i by (simp add: list_all_length)
  then have "confirmedByCount cfg (updateTrack cfg n d (ts ! i))" by (rule confirmedByCount_update)
  then have "confirmedByCount cfg t'" if "t' \<in> set (ts[i := updateTrack cfg n d (ts ! i)])" for t'
    using that assms set_update_subset_insert[of ts i] by (auto simp: list_all_iff)
  then show ?thesis by (simp add: m list_all_iff)
next
  assume m: "matchDetection cfg gen n (ts, c) d = (ts @ [newTrack (gen c) n d], Suc c)"
  then show ?thesis using assms by (simp add: confirmedByCount_new)
qed

lemma confirmedByCount_matchAll:
  "list_all (confirmedByCount cfg) (fst st) \<Longrightarrow>
   list_all (confirmedByCount cfg) (fst (matchAll cfg gen n ds st))"
  unfolding matchAll_def
proof (induction ds arbitrary: st)
  case Nil
  then show ?case by simp
next
  case (Cons d ds)
  obtain ts c where st: "st = (ts, c)" by (cases st)
  have "list_all (confirmedByCount cfg) (fst (matchDetection cfg gen n st d))"
    using Cons.prems confirmedByCount_matchDetection by (simp add: st)
  from Cons.IH[OF this] show ?case by simp
qed

lemma confirmedByCount_processFrame:
  assumes "list_all (confirmedByCount cfg) (localTracks st)"
  shows "list_all (confirmedByCount cfg) (localTracks (processFrame cfg gen f st))"
proof (cases "frameProcessed f st")
  case False
  then show ?thesis using processFrame_skip[OF False] assms by simp
next
  case True
  have "list_all (confirmedByCount cfg) (map (\<lambda>t. t\<lparr>matched := False\<rparr>) (localTracks st))"
    using assms by (simp add: list_all_iff confirmedByCount_def)
  then have "list_all (confirmedByCount cfg) (fst (matchedTracks cfg gen f st))"
    unfolding matchedTracks_def by (intro confirmedByCount_matchAll) simp
  then show ?thesis using processFrame_run[OF True]
    by (simp add: pruneTracks_def list_all_iff)
qed

lemma confirmedByCount_runTracker:
  "list_all (confirmedByCount cfg) (localTracks st) \<Longrightarrow>
   list_all (confirmedByCount cfg) (localTracks (runTracker cfg gen calls st))"
  unfolding runTracker_def
proof (induction calls arbitrary: st)
  case Nil
  then show ?case by simp
next
  case (Cons c cs)
  have "list_all (confirmedByCount cfg) (localTracks (trackerStep cfg gen st c))"
    using Cons.prems
    by (cases c) (simp_all add: initializeTracker_def disposeTracker_def confirmedByCount_processFrame)
  from Cons.IH[OF this] show ?case by simp
qed

lemma runTracker_append:
  "runTracker cfg gen (cs1 @ cs2) st = runTracker cfg gen cs2 (runTracker cfg gen cs1 st)"
  by (simp add: runTracker_def)



lemma startedTracker_eval:
  "startedTracker gen =
     \<lparr> hasDetector = True, lastVideoTime = 1 / 8,
       localTracks = [\<lparr> track_id = gen 0, bbox = (0, 0, 1 / 2, 1 / 2), score = 3 / 4,
                       firstSeen = 1000, lastSeen = 1000, matched = True,
                       consecutiveFrames = 1, isConfirmed = False \<rparr>],
       trackingData = Map.empty, idCounter = 1 \<rparr>"
  by (simp add: startedTracker_def runTracker_def initializeTracker_def initialTracker_def
      processFrame_def matchedTracks_def currentDetections_def startFrame_def normalize_def
      geometricFilter_def TRACKER_CONFIG_def matchAll_def matchDetection_def newTrack_def
      pruneTracks_def storeUpdate_def Let_def)

lemma doubledTracker_tracks:
  "localTracks (doubledTracker gen) =
     [\<lparr> track_id = gen 0, bbox = (0, 0, 1 / 2, 1 / 4), score = 1 / 4,
        firstSeen = 1000, lastSeen = 1125, matched = True,
        consecutiveFrames = 3, isConfirmed = True \<rparr>]"
  by (simp add: doubledTracker_def startedTracker_eval
      processFrame_def matchedTracks_def currentDetections_def doubleFrame_def normalize_def
      geometricFilter_def TRACKER_CONFIG_def matchAll_def matchDetection_def updateTrack_def
      calculateIoU_def pruneTracks_def Let_def)

lemma inj_exampleGen: "inj exampleGen"
proof (rule injI)
  fix j k assume "exampleGen j = exampleGen k"
  then have "length (exampleGen j) = length (exampleGen k)" by simp
  then show "j = k" by (simp add: exampleGen_def)
qed

lemma emptyFrame_sel [simp]:
  "currentTime (emptyFrame time ms) = time" "dateNow (emptyFrame time ms) = ms"
  "videoWidth (emptyFrame time ms) = 4" "videoHeight (emptyFrame time ms) = 4"
  "detections (emptyFrame time ms) = []"
  by (simp_all add: emptyFrame_def)

lemma TRACKER_CONFIG_sel:
  "gracePeriodMs TRACKER_CONFIG = 2000" "confirmationFrames TRACKER_CONFIG = 3"
  by (simp_all add: TRACKER_CONFIG_def)

lemma doubledTracker_eval:
  "doubledTracker gen =
     \<lparr> hasDetector = True, lastVideoTime = 2 / 8,
       localTracks = [\<lparr> track_id = gen 0, bbox = (0, 0, 1 / 2, 1 / 4), score = 1 / 4,
                       firstSeen = 1000, lastSeen = 1125, matched = True,
                       consecutiveFrames = 3, isConfirmed = True \<rparr>],
       trackingData = [gen 0 \<mapsto> \<lparr> track_id = gen 0, bbox = (0, 0, 1 / 2, 1 / 4), score = 1 / 4,
                       firstSeen = 1000, lastSeen = 1125, matched = True,
                       consecutiveFrames = 3, isConfirmed = True \<rparr>],
       idCounter = 1 \<rparr>"
  by (simp add: doubledTracker_def startedTracker_eval
      processFrame_def matchedTracks_def currentDetections_def doubleFrame_def normalize_def
      geometricFilter_def TRACKER_CONFIG_def matchAll_def matchDetection_def updateTrack_def
      calculateIoU_def pruneTracks_def storeUpdate_def Let_def numeral_3_eq_3)

lemma matchedTracks_emptyFrame:
  "matchedTracks cfg gen (emptyFrame time ms) st =
     (map (\<lambda>t. t\<lparr>matched := False\<rparr>) (localTracks st), idCounter st)"
  by (simp add: matchedTracks_def currentDetections_def matchAll_def)

lemma findBest_matched_irrelevant:
  "findBest b (map (matched_update m) ts) i best = findBest b ts i best"
proof (induction ts arbitrary: i best)
  case Nil
  then show ?case by simp
next
  case (Cons t ts)
  then show ?case by (cases best) (simp add: Let_def)
qed

lemma seenNow_matchDetection:
  assumes "list_all (seenNow n old) ts"
  shows "list_all (seenNow n old) (fst (matchDetection cfg gen n (ts, c) d))"
  using matchDetection_cases[of cfg gen n ts c d]
proof (elim disjE exE conjE)
  assume "matchDetection cfg gen n (ts, c) d = (ts, c)"
  then show ?thesis using assms by simp
next
  fix i assume i: "i < length ts"
    and m: "matchDetection cfg gen n (ts, c) d = (ts[i := updateTrack cfg n d (ts ! i)], c)"
  have u: "seenNow n old (updateTrack cfg n d (ts ! i))"
    by (simp add: seenNow_def updateTrack_def Let_def)
  have "seenNow n old t'" if "t' \<in> set (ts[i := updateTrack cfg n d (ts ! i)])" for t'
    using that assms u set_update_subset_insert[of ts i] by (auto simp: list_all_iff)
  then show ?thesis by (simp add: m list_all_iff)
next
  assume m: "matchDetection cfg gen n (ts, c) d = (ts @ [newTrack (gen c) n d], Suc c)"
  have "seenNow n old (newTrack (gen c) n d)" by (simp add: seenNow_def newTrack_def)
  then show ?thesis using assms by (simp add: m)
qed

lemma seenNow_matchAll:
  "list_all (seenNow n old) (fst st) \<Longrightarrow> list_all (seenNow n old) (fst (matchAll cfg gen n ds st))"
  unfolding matchAll_def
proof (induction ds arbitrary: st)
  case Nil
  then show ?case by simp
next
  case (Cons d ds)
  obtain ts c where st: "st = (ts, c)" by (cases st)
  have "list_all (seenNow n old) (fst (matchDetection cfg gen n st d))"
    using Cons.prems seenNow_matchDetection by (simp add: st)
  from Cons.IH[OF this] show ?case by simp
qed

lemma matchedTracks_lastSeen:
  assumes "t \<in> set (fst (matchedTracks cfg gen f st))"
  shows "(matched t \<and> lastSeen t = dateNow f) \<or>
         (\<exists>u \<in> set (localTracks st). t = u\<lparr>matched := False\<rparr>)"
proof -
  let ?old = "map (\<lambda>t. t\<lparr>matched := False\<rparr>) (localTracks st)"
  have "list_all (seenNow (dateNow f) ?old) ?old" by (simp add: list_all_iff seenNow_def)
  then have "list_all (seenNow (dateNow f) ?old) (fst (matchedTracks cfg gen f st))"
    unfolding matchedTracks_def by (intro seenNow_matchAll) simp
  then have "seenNow (dateNow f) ?old t" using assms by (simp add: list_all_iff)
  then show ?thesis by (auto simp: seenNow_def)
qed

text \<open>
  Claim C4, as stated, speaks of every call of \<open>processFrame\<close>. A call that finds the
  video at the same \<open>currentTime\<close> as the call before returns before the pruning step:
  in the run below a track last matched at 1000 ms is still in \<open>localTracks\<close> after a
  call made at 1000000 ms, far beyond the grace period of 2000 ms.
\<close>

theorem processFrame_prune_counterexample:
  "localTracks (runTracker TRACKER_CONFIG exampleGen
      [Initialize True, Frame startFrame, Frame (emptyFrame (1 / 8) 1000000)] initialTracker) =
     [\<lparr> track_id = ''A'', bbox = (0, 0, 1 / 2, 1 / 2), score = 3 / 4, firstSeen = 1000,
        lastSeen = 1000, matched = True, consecutiveFrames = 1, isConfirmed = False \<rparr>] \<and>
   \<not> (dateNow (emptyFrame (1 / 8) 1000000) - 1000 < gracePeriodMs TRACKER_CONFIG)"
proof -
  have "runTracker TRACKER_CONFIG exampleGen
      [Initialize True, Frame startFrame, Frame (emptyFrame (1 / 8) 1000000)] initialTracker =
      processFrame TRACKER_CONFIG exampleGen (emptyFrame (1 / 8) 1000000) (startedTracker exampleGen)"
    by (simp add: runTracker_def startedTracker_def)
  then show ?thesis
    by (simp add: startedTracker_eval processFrame_def exampleGen_def TRACKER_CONFIG_sel)
qed

text \<open>
  Claim C4, amended: a call of \<open>processFrame\<close> that processes a frame (a detector is set,
  the video has a new \<open>currentTime\<close> and a non-zero size) at time \<open>now\<close> leaves in
  \<open>localTracks\<close> exactly the tracks of that frame with \<open>now - lastSeen < gracePeriodMs\<close>,
  whatever their confirmation state; the \<open>lastSeen\<close> of a track of that frame is \<open>now\<close> if
  a detection of the frame matched or created it, and otherwise what it was before the
  call, the track being unchanged but for its \<open>matched\<close> flag. So the tracks removed are
  those whose last match or creation is at least the grace period old. A call that
  returns early removes no track.
\<close>

theorem processFrame_prune:
  "(frameProcessed f st \<longrightarrow>
      (t \<in> set (localTracks (processFrame cfg gen f st)) \<longleftrightarrow>
         t \<in> set (fst (matchedTracks cfg gen f st)) \<and> dateNow f - lastSeen t < gracePeriodMs cfg) \<and>
      (t \<in> set (fst (matchedTracks cfg gen f st)) \<longrightarrow>
         (matched t \<and> lastSeen t = dateNow f) \<or>
         (\<exists>u \<in> set (localTracks st). t = u\<lparr>matched := False\<rparr>))) \<and>
   (\<not> frameProcessed f st \<longrightarrow> localTracks (processFrame cfg gen f st) = localTracks st)"
  using processFrame_run[of f st cfg gen] processFrame_skip[of f st cfg gen]
    matchedTracks_lastSeen[of t cfg gen f st]
  by (auto simp: pruneTracks_def)

theorem processFrame_prune_witness:
  "frameProcessed (emptyFrame (3 / 8) 3125) (doubledTracker exampleGen) \<and>
   frameProcessed (emptyFrame (3 / 8) 3124) (doubledTracker exampleGen) \<and>
   \<not> frameProcessed (emptyFrame (2 / 8) 1000000) (doubledTracker exampleGen) \<and>
   isConfirmed (hd (localTracks (doubledTracker exampleGen))) \<and>
   hd (fst (matchedTracks TRACKER_CONFIG exampleGen (emptyFrame (3 / 8) 3125) (doubledTracker exampleGen)))
     \<in> set (fst (matchedTracks TRACKER_CONFIG exampleGen (emptyFrame (3 / 8) 3125)
               (doubledTracker exampleGen))) \<and>
   hd (fst (matchedTracks TRACKER_CONFIG exampleGen (emptyFrame (3 / 8) 3125) (doubledTracker exampleGen)))
     \<notin> set (localTracks (processFrame TRACKER_CONFIG exampleGen (emptyFrame (3 / 8) 3125)
               (doubledTracker exampleGen))) \<and>
   hd (fst (matchedTracks TRACKER_CONFIG exampleGen (emptyFrame (3 / 8) 3124) (doubledTracker exampleGen)))
     \<in> set (localTracks (processFrame TRACKER_CONFIG exampleGen (emptyFrame (3 / 8) 3124)
               (doubledTracker exampleGen))) \<and>
   localTracks (processFrame TRACKER_CONFIG exampleGen (emptyFrame (2 / 8) 1000000)
                  (doubledTracker exampleGen)) = localTracks (doubledTracker exampleGen)"
proof -
  have p1: "frameProcessed (emptyFrame (3 / 8) 3125) (doubledTracker exampleGen)"
    and p2: "frameProcessed (emptyFrame (3 / 8) 3124) (doubledTracker exampleGen)"
    and p3: "\<not> frameProcessed (emptyFrame (2 / 8) 1000000) (doubledTracker exampleGen)"
    by (simp_all add: frameProcessed_def doubledTracker_eval)
  show ?thesis
    using p1 p2 p3
      processFrame_prune[of "emptyFrame (3 / 8) 3125" "doubledTracker exampleGen"
        "hd (fst (matchedTracks TRACKER_CONFIG exampleGen (emptyFrame (3 / 8) 3125) (doubledTracker exampleGen)))"
        TRACKER_CONFIG exampleGen]
      processFrame_prune[of "emptyFrame (3 / 8) 3124" "doubledTracker exampleGen"
        "hd (fst (matchedTracks TRACKER_CONFIG exampleGen (emptyFrame (3 / 8) 3124) (doubledTracker exampleGen)))"
        TRACKER_CONFIG exampleGen]
      processFrame_prune[of "emptyFrame (2 / 8) 1000000" "doubledTracker exampleGen"
        "hd (localTracks (doubledTracker exampleGen))" TRACKER_CONFIG exampleGen]
    by (simp add: matchedTracks_emptyFrame doubledTracker_eval TRACKER_CONFIG_sel)
qed

text \<open>
  Claim C5: a new track starts with \<open>consecutiveFrames = 1\<close> and \<open>isConfirmed = false\<close>; a
  match sets \<open>isConfirmed\<close> only when the incremented counter has reached
  \<open>confirmationFrames\<close>; in every state the tracker reaches from its initial state, a
  confirmed track has a counter of at least \<open>confirmationFrames\<close>; and, identifiers never
  being reused, a track that is confirmed in a reachable state is confirmed in every
  later state in which it is still tracked, whatever calls lie in between.
\<close>

theorem isConfirmed_hysteresis:
  assumes "inj gen"
  shows "consecutiveFrames (newTrack newId n d) = 1 \<and> \<not> isConfirmed (newTrack newId n d) \<and>
     (isConfirmed (updateTrack cfg n d t0) \<longleftrightarrow>
        isConfirmed t0 \<or> confirmationFrames cfg \<le> consecutiveFrames t0 + 1) \<and>
     (\<forall>t \<in> set (localTracks (runTracker cfg gen calls1 initialTracker)).
        isConfirmed t \<longrightarrow> confirmationFrames cfg \<le> consecutiveFrames t) \<and>
     (\<forall>t \<in> set (localTracks (runTracker cfg gen calls1 initialTracker)).
      \<forall>t' \<in> set (localTracks (runTracker cfg gen (calls1 @ calls2) initialTracker)).
        track_id t' = track_id t \<and> isConfirmed t \<longrightarrow> isConfirmed t')"
proof (intro conjI ballI impI)
  show "consecutiveFrames (newTrack newId n d) = 1" by (simp add: newTrack_def)
  show "\<not> isConfirmed (newTrack newId n d)" by (simp add: newTrack_def)
  show "isConfirmed (updateTrack cfg n d t0) \<longleftrightarrow>
        isConfirmed t0 \<or> confirmationFrames cfg \<le> consecutiveFrames t0 + 1"
    by (simp add: updateTrack_def Let_def)
next
  fix t assume "t \<in> set (localTracks (runTracker cfg gen calls1 initialTracker))" "isConfirmed t"
  moreover have "list_all (confirmedByCount cfg) (localTracks (runTracker cfg gen calls1 initialTracker))"
    by (rule confirmedByCount_runTracker) (simp add: initialTracker_def)
  ultimately show "confirmationFrames cfg \<le> consecutiveFrames t"
    by (simp add: list_all_iff confirmedByCount_def)
next
  define s1 where "s1 = runTracker cfg gen calls1 initialTracker"
  define s2 where "s2 = runTracker cfg gen calls2 s1"
  fix t t' assume "t \<in> set (localTracks (runTracker cfg gen calls1 initialTracker))"
    and "t' \<in> set (localTracks (runTracker cfg gen (calls1 @ calls2) initialTracker))"
    and same: "track_id t' = track_id t \<and> isConfirmed t"
  then have t: "t \<in> set (localTracks s1)" and t': "t' \<in> set (localTracks s2)"
    by (simp_all add: s1_def s2_def runTracker_append)
  have inv: "idsDrawn gen (localTracks s1, idCounter s1)"
    unfolding s1_def using idsDrawn_runTracker[OF assms idsDrawn_initial] .
  have ext: "extends gen (localTracks s1, idCounter s1) (localTracks s2, idCounter s2)"
    unfolding s2_def by (rule extends_runTracker)
  from ext t' consider
    (old) u where "u \<in> set (localTracks s1)" "evolves u t'"
    | (new) k where "idCounter s1 \<le> k" "track_id t' = gen k"
    by (auto simp: extends_def)
  then show "isConfirmed t'"
  proof cases
    case old
    have "track_id u = track_id t" using old(2) same by (simp add: evolves_def)
    moreover have "inj_on track_id (set (localTracks s1))"
      using inv by (simp add: idsDrawn_def distinct_map)
    ultimately have "u = t" using old(1) t by (auto dest: inj_onD)
    then show ?thesis using old(2) same by (simp add: evolves_def)
  next
    case new
    from inv t obtain k0 where "k0 < idCounter s1" "track_id t = gen k0"
      by (auto simp: idsDrawn_def)
    then have "gen k = gen k0" "k \<noteq> k0" using new same by auto
    then show ?thesis using assms by (auto dest: injD)
  qed
qed

lemma confirmedRun_eval:
  "runTracker TRACKER_CONFIG gen [Initialize True, Frame startFrame, Frame doubleFrame] initialTracker
     = doubledTracker gen"
  by (simp add: doubledTracker_def startedTracker_def runTracker_def)

lemma agedRun_tracks:
  "localTracks (runTracker TRACKER_CONFIG gen
       [Initialize True, Frame startFrame, Frame doubleFrame, Frame (emptyFrame (3 / 8) 1250)]
       initialTracker) =
     [\<lparr> track_id = gen 0, bbox = (0, 0, 1 / 2, 1 / 4), score = 1 / 4,
        firstSeen = 1000, lastSeen = 1125, matched = False,
        consecutiveFrames = 3, isConfirmed = True \<rparr>]"
proof -
  have p: "frameProcessed (emptyFrame (3 / 8) 1250) (doubledTracker gen)"
    by (simp add: frameProcessed_def doubledTracker_eval)
  have "runTracker TRACKER_CONFIG gen
       [Initialize True, Frame startFrame, Frame doubleFrame, Frame (emptyFrame (3 / 8) 1250)]
       initialTracker = processFrame TRACKER_CONFIG gen (emptyFrame (3 / 8) 1250) (doubledTracker gen)"
    using runTracker_append[of TRACKER_CONFIG gen
        "[Initialize True, Frame startFrame, Frame doubleFrame]" "[Frame (emptyFrame (3 / 8) 1250)]"
        initialTracker]
    by (simp add: confirmedRun_eval) (simp add: runTracker_def)
  then show ?thesis
    using processFrame_run[OF p, of TRACKER_CONFIG gen]
    by (simp add: matchedTracks_emptyFrame doubledTracker_eval pruneTracks_def TRACKER_CONFIG_sel)
qed

theorem isConfirmed_hysteresis_witness:
  "inj exampleGen \<and>
   isConfirmed (hd (localTracks (runTracker TRACKER_CONFIG exampleGen
       [Initialize True, Frame startFrame, Frame doubleFrame] initialTracker))) \<and>
   track_id (hd (localTracks (runTracker TRACKER_CONFIG exampleGen
       ([Initialize True, Frame startFrame, Frame doubleFrame] @ [Frame (emptyFrame (3 / 8) 1250)])
       initialTracker))) = exampleGen 0 \<and>
   isConfirmed (hd (localTracks (runTracker TRACKER_CONFIG exampleGen
       ([Initialize True, Frame startFrame, Frame doubleFrame] @ [Frame (emptyFrame (3 / 8) 1250)])
       initialTracker))) \<and>
   confirmationFrames TRACKER_CONFIG \<le>
     consecutiveFrames (hd (localTracks (runTracker TRACKER_CONFIG exampleGen
       [Initialize True, Frame startFrame, Frame doubleFrame] initialTracker)))"
  using isConfirmed_hysteresis[OF inj_exampleGen, of "''A''" 0 "((0, 0, 1, 1), 1)" TRACKER_CONFIG
      "hd (localTracks (doubledTracker exampleGen))"
      "[Initialize True, Frame startFrame, Frame doubleFrame]"
      "[Frame (emptyFrame (3 / 8) 1250)]"]
    inj_exampleGen
  by (simp add: agedRun_tracks confirmedRun_eval doubledTracker_eval TRACKER_CONFIG_sel)

text \<open>
  Claim C9: \<open>processFrame\<close> does not associate detections with tracks one to one. The
  best track for a detection is chosen without looking at \<open>matched\<close>, so a track matched
  earlier in the frame can be chosen again. In the run below the second frame holds two
  detections that both overlap the only track: after that single call the track's
  \<open>consecutiveFrames\<close> has gone from 1 to 3 (which also confirms it), and its box and
  score are those of the later detection.
\<close>

theorem processFrame_double_match:
  "findBest b (map (matched_update m) ts) i best = findBest b ts i best \<and>
   localTracks (startedTracker gen) =
     [\<lparr> track_id = gen 0, bbox = (0, 0, 1 / 2, 1 / 2), score = 3 / 4,
        firstSeen = 1000, lastSeen = 1000, matched = True,
        consecutiveFrames = 1, isConfirmed = False \<rparr>] \<and>
   map (normalize 4 4) (detections doubleFrame) =
     [((0, 0, 1 / 2, 1 / 2), 3 / 4), ((0, 0, 1 / 2, 1 / 4), 1 / 4)] \<and>
   localTracks (processFrame TRACKER_CONFIG gen doubleFrame (startedTracker gen)) =
     [\<lparr> track_id = gen 0, bbox = (0, 0, 1 / 2, 1 / 4), score = 1 / 4,
        firstSeen = 1000, lastSeen = 1125, matched = True,
        consecutiveFrames = 3, isConfirmed = True \<rparr>]"
  using doubledTracker_tracks[of gen] findBest_matched_irrelevant[of b m ts i best]
  by (simp add: doubledTracker_def startedTracker_eval doubleFrame_def normalize_def)

section \<open>Properties of the hourly aggregator\<close>

lemma HOUR_MS_pos: "0 < HOUR_MS"
  by (simp add: HOUR_MS_def)

lemma div_lower:
  fixes H :: int
  assumes "0 < H" "k \<le> x div H"
  shows "k * H \<le> x"
proof -
  have "k * H \<le> (x div H) * H" using assms by (intro mult_right_mono) simp_all
  moreover have "(x div H) * H + x mod H = x" by simp
  moreover have "0 \<le> x mod H" using assms(1) by simp
  ultimately show ?thesis by linarith
qed

lemma wholeHoursFrom_done: "currentHour \<le> hour \<Longrightarrow> wholeHoursFrom hour currentHour = []"
proof -
  assume "currentHour \<le> hour"
  then have "currentHour - hour + HOUR_MS - 1 < HOUR_MS" by simp
  then have "(currentHour - hour + HOUR_MS - 1) div HOUR_MS \<le> 0"
    using div_lower[OF HOUR_MS_pos, of 1 "currentHour - hour + HOUR_MS - 1"] by force
  then show ?thesis by (simp add: wholeHoursFrom_def)
qed

lemma wholeHoursFrom_step:
  assumes "hour < currentHour"
  shows "wholeHoursFrom hour currentHour = hour # wholeHoursFrom (hour + HOUR_MS) currentHour"
proof -
  define n where "n = nat ((currentHour - (hour + HOUR_MS) + HOUR_MS - 1) div HOUR_MS)"
  have nonneg: "0 \<le> (currentHour - hour - 1) div HOUR_MS"
    using assms HOUR_MS_pos by (simp add: pos_imp_zdiv_nonneg_iff)
  have "(currentHour - hour + HOUR_MS - 1) div HOUR_MS = (currentHour - hour - 1) div HOUR_MS + 1"
    using HOUR_MS_pos div_add_self2[of HOUR_MS "currentHour - hour - 1"]
    by (simp add: algebra_simps)
  moreover have "currentHour - (hour + HOUR_MS) + HOUR_MS - 1 = currentHour - hour - 1" by simp
  ultimately have cnt: "nat ((currentHour - hour + HOUR_MS - 1) div HOUR_MS) = Suc n"
    using nonneg by (simp add: n_def nat_add_distrib)
  have "map (\<lambda>k. hour + int k * HOUR_MS) [0..<Suc n] =
        hour # map (\<lambda>k. hour + HOUR_MS + int k * HOUR_MS) [0..<n]"
    by (simp add: upt_conv_Cons map_Suc_upt[symmetric] algebra_simps del: upt_Suc)
  then show ?thesis
    unfolding wholeHoursFrom_def cnt n_def[symmetric] by simp
qed

lemma aggregateMissed_result:
  "aggregatedHours (aggregateMissed pj sf hour currentHour st) =
     aggregatedHours st @ wholeHoursFrom hour currentHour \<and>
   database (aggregateMissed pj sf hour currentHour st) =
     foldl (\<lambda>db h. fst (aggregateHourlyData pj sf h db)) (database st)
       (wholeHoursFrom hour currentHour) \<and>
   lastProcessedHour (aggregateMissed pj sf hour currentHour st) = lastProcessedHour st"
proof (induction pj sf hour currentHour st rule: aggregateMissed.induct)
  case (1 pj sf hour currentHour st)
  show ?case
  proof (cases "hour < currentHour")
    case True
    then show ?thesis
      using "1.IH"[OF True]
      by (subst (1 2 3) aggregateMissed.simps) (simp add: wholeHoursFrom_step)
  next
    case False
    then show ?thesis
      by (subst (1 2 3) aggregateMissed.simps) (simp add: wholeHoursFrom_done)
  qed
qed

lemma wholeHoursFrom_bounds:
  assumes "h \<in> set (wholeHoursFrom w c)"
  shows "w \<le> h \<and> h < c \<and> (h - w) mod HOUR_MS = 0"
proof -
  from assms obtain k where k: "k < nat ((c - w + HOUR_MS - 1) div HOUR_MS)" and h: "h = w + int k * HOUR_MS"
    by (auto simp: wholeHoursFrom_def)
  have "int k + 1 \<le> (c - w + HOUR_MS - 1) div HOUR_MS" using k by linarith
  then have "(int k + 1) * HOUR_MS \<le> c - w + HOUR_MS - 1"
    by (rule div_lower[OF HOUR_MS_pos])
  then have "h < c" using h by (simp add: algebra_simps)
  moreover have "w \<le> h" using h HOUR_MS_pos by simp
  ultimately show ?thesis using h by simp
qed

lemma wholeHoursFrom_two: "wholeHoursFrom w (w + 2 * HOUR_MS) = [w, w + HOUR_MS]"
proof -
  have a: "w < w + 2 * HOUR_MS" using HOUR_MS_pos by simp
  have b: "w + HOUR_MS < w + 2 * HOUR_MS" using HOUR_MS_pos by simp
  show ?thesis
    using wholeHoursFrom_step[OF a] wholeHoursFrom_step[OF b]
      wholeHoursFrom_done[of "w + 2 * HOUR_MS" "w + HOUR_MS + HOUR_MS"]
    by simp
qed


text \<open>
  Claim C7: with no watermark, \<open>checkAndTriggerAggregation\<close> only sets the watermark to the
  current hour floor (the database and the list of aggregated hours stay as they are).
  With a watermark \<open>w\<close> below the current hour floor, it calls \<open>aggregateHourlyData\<close> for
  \<open>w\<close>, \<open>w\<close> plus one hour, and so on, for every such hour below the current hour floor, in
  this order, and then sets the watermark to the current hour floor. In particular, with
  the current hour floor two hours after \<open>w\<close>, the hours aggregated are \<open>w\<close> and \<open>w\<close> plus
  one hour, and the watermark becomes \<open>w\<close> plus two hours.
\<close>

theorem checkAndTriggerAggregation_rollover:
  "(lastProcessedHour st = None \<longrightarrow>
      checkAndTriggerAggregation pj sf tz now st =
        st\<lparr>lastProcessedHour := Some (getHourFloor tz now)\<rparr>) \<and>
   (lastProcessedHour st = Some w \<and> w < getHourFloor tz now \<longrightarrow>
      lastProcessedHour (checkAndTriggerAggregation pj sf tz now st) = Some (getHourFloor tz now) \<and>
      aggregatedHours (checkAndTriggerAggregation pj sf tz now st) =
        aggregatedHours st @ wholeHoursFrom w (getHourFloor tz now) \<and>
      database (checkAndTriggerAggregation pj sf tz now st) =
        foldl (\<lambda>db h. fst (aggregateHourlyData pj sf h db)) (database st)
          (wholeHoursFrom w (getHourFloor tz now)) \<and>
      (\<forall>h \<in> set (wholeHoursFrom w (getHourFloor tz now)).
         w \<le> h \<and> h < getHourFloor tz now \<and> (h - w) mod HOUR_MS = 0) \<and>
      hd (wholeHoursFrom w (getHourFloor tz now)) = w) \<and>
   (lastProcessedHour st = Some w \<and> getHourFloor tz now = w + 2 * HOUR_MS \<longrightarrow>
      lastProcessedHour (checkAndTriggerAggregation pj sf tz now st) = Some (w + 2 * HOUR_MS) \<and>
      aggregatedHours (checkAndTriggerAggregation pj sf tz now st) =
        aggregatedHours st @ [w, w + HOUR_MS])"
proof (intro conjI impI; (elim conjE)?)
  assume "lastProcessedHour st = None"
  then show "checkAndTriggerAggregation pj sf tz now st =
        st\<lparr>lastProcessedHour := Some (getHourFloor tz now)\<rparr>"
    by (simp add: checkAndTriggerAggregation_def Let_def)
next
  assume w: "lastProcessedHour st = Some w" "w < getHourFloor tz now"
  then have eq: "checkAndTriggerAggregation pj sf tz now st =
      (aggregateMissed pj sf w (getHourFloor tz now) st)\<lparr>lastProcessedHour := Some (getHourFloor tz now)\<rparr>"
    by (simp add: checkAndTriggerAggregation_def Let_def)
  show "lastProcessedHour (checkAndTriggerAggregation pj sf tz now st) = Some (getHourFloor tz now)"
    by (simp add: eq)
  show "aggregatedHours (checkAndTriggerAggregation pj sf tz now st) =
        aggregatedHours st @ wholeHoursFrom w (getHourFloor tz now)"
    by (simp add: eq aggregateMissed_result)
  show "database (checkAndTriggerAggregation pj sf tz now st) =
        foldl (\<lambda>db h. fst (aggregateHourlyData pj sf h db)) (database st)
          (wholeHoursFrom w (getHourFloor tz now))"
    by (simp add: eq aggregateMissed_result)
  show "\<forall>h \<in> set (wholeHoursFrom w (getHourFloor tz now)).
         w \<le> h \<and> h < getHourFloor tz now \<and> (h - w) mod HOUR_MS = 0"
    using wholeHoursFrom_bounds by blast
  show "hd (wholeHoursFrom w (getHourFloor tz now)) = w"
    using wholeHoursFrom_step[OF w(2)] by simp
next
  assume w: "lastProcessedHour st = Some w" "getHourFloor tz now = w + 2 * HOUR_MS"
  then have lt: "w < getHourFloor tz now" using HOUR_MS_pos by simp
  have eq: "checkAndTriggerAggregation pj sf tz now st =
      (aggregateMissed pj sf w (w + 2 * HOUR_MS) st)\<lparr>lastProcessedHour := Some (w + 2 * HOUR_MS)\<rparr>"
    using w lt by (simp add: checkAndTriggerAggregation_def Let_def)
  show "lastProcessedHour (checkAndTriggerAggregation pj sf tz now st) = Some (w + 2 * HOUR_MS)"
    by (simp add: eq)
  show "aggregatedHours (checkAndTriggerAggregation pj sf tz now st) =
        aggregatedHours st @ [w, w + HOUR_MS]"
    by (simp add: eq aggregateMissed_result wholeHoursFrom_two)
qed

lemma floor_example: "getHourFloor 0 10800005 = 10800000"
  by (simp add: getHourFloor_def HOUR_MS_def)


lemma hours_example: "wholeHoursFrom 3600000 10800000 = [3600000, 7200000]"
  using wholeHoursFrom_two[of 3600000] by (simp add: HOUR_MS_def)

theorem checkAndTriggerAggregation_rollover_witness:
  "lastProcessedHour freshAggregator = None \<and>
   checkAndTriggerAggregation noParse noText 0 10800005 freshAggregator =
     \<lparr> lastProcessedHour = Some 10800000, database = emptyDatabase, aggregatedHours = [] \<rparr> \<and>
   lastProcessedHour markedAggregator = Some 3600000 \<and>
   3600000 < getHourFloor 0 10800005 \<and>
   getHourFloor 0 10800005 = 3600000 + 2 * HOUR_MS \<and>
   lastProcessedHour (checkAndTriggerAggregation noParse noText 0 10800005 markedAggregator) =
     Some 10800000 \<and>
   aggregatedHours (checkAndTriggerAggregation noParse noText 0 10800005 markedAggregator) =
     [3600000, 7200000]"
  using checkAndTriggerAggregation_rollover[of freshAggregator noParse noText 0 10800005 3600000]
    checkAndTriggerAggregation_rollover[of markedAggregator noParse noText 0 10800005 3600000]
  by (simp add: floor_example hours_example freshAggregator_def markedAggregator_def HOUR_MS_def)

lemma chunkLoop_written:
  "snd (snd (chunkLoop pj sf valid i acc)) =
     snd (snd acc) @ map (buildSummarizedSession pj sf) (drop i valid) \<and>
   summarized_sessions (fst (chunkLoop pj sf valid i acc)) =
     foldl (\<lambda>rows row. putRow sessionId_sum row rows) (summarized_sessions (fst acc))
       (map (buildSummarizedSession pj sf) (drop i valid)) \<and>
   sessions (fst (chunkLoop pj sf valid i acc)) = sessions (fst acc)"
proof (induction pj sf valid i acc rule: chunkLoop.induct)
  case (1 pj sf valid i acc)
  obtain db tot written where acc: "acc = (db, tot, written)" by (cases acc)
  show ?case
  proof (cases "i < length valid")
    case True
    define chunk where "chunk = take CHUNK_SIZE (drop i valid)"
    define summaries where "summaries = map (buildSummarizedSession pj sf) chunk"
    have split: "map (buildSummarizedSession pj sf) (drop i valid) =
        summaries @ map (buildSummarizedSession pj sf) (drop (i + CHUNK_SIZE) valid)"
    proof -
      have "take CHUNK_SIZE (drop i valid) @ drop CHUNK_SIZE (drop i valid) = drop i valid"
        by (rule append_take_drop_id)
      then have "drop i valid = chunk @ drop (i + CHUNK_SIZE) valid"
        unfolding chunk_def by (simp add: add.commute)
      then show ?thesis by (simp add: summaries_def)
    qed
    have step: "chunkLoop pj sf valid i acc =
        chunkLoop pj sf valid (i + CHUNK_SIZE)
          (bulkSaveSummarizedSessions summaries db, tot + length summaries, written @ summaries)"
      using True by (subst chunkLoop.simps) (simp add: acc chunk_def summaries_def Let_def)
    show ?thesis
      unfolding step
      using "1.IH"[OF True acc[THEN sym] refl refl refl, folded chunk_def]
      by (simp add: split acc bulkSaveSummarizedSessions_def summaries_def)
  next
    case False
    then show ?thesis by (subst (1 2 3) chunkLoop.simps) simp
  qed
qed


lemma set_putRow: "set (putRow key row rows) \<subseteq> insert row (set rows)"
  by (induction rows) auto

lemma set_putRows:
  "set (foldl (\<lambda>rows row. putRow key row rows) table new) \<subseteq> set table \<union> set new"
proof (induction new arbitrary: table)
  case Nil
  then show ?case by simp
next
  case (Cons r rs)
  show ?case using Cons.IH[of "putRow key r table"] set_putRow[of key r table] by auto
qed

lemma aggregateHourlyData_written:
  "snd (snd (aggregateHourlyData pj sf h db)) =
     map (buildSummarizedSession pj sf) (filter (\<lambda>s. events s \<noteq> []) (getSessionsByHour h db)) \<and>
   summarized_sessions (fst (aggregateHourlyData pj sf h db)) =
     foldl (\<lambda>rows row. putRow sessionId_sum row rows) (summarized_sessions db)
       (snd (snd (aggregateHourlyData pj sf h db)))"
  by (simp add: aggregateHourlyData_def Let_def bulkSaveSummarizedSessions_def)

lemma aggregateAllData_written:
  "snd (snd (aggregateAllData pj sf db)) =
     map (buildSummarizedSession pj sf) (filter (\<lambda>s. events s \<noteq> []) (getAllSessions db)) \<and>
   summarized_sessions (fst (aggregateAllData pj sf db)) =
     foldl (\<lambda>rows row. putRow sessionId_sum row rows) (summarized_sessions db)
       (snd (snd (aggregateAllData pj sf db)))"
  using chunkLoop_written[of pj sf "filter (\<lambda>s. events s \<noteq> []) (getAllSessions db)" 0 "(db, 0, [])"]
  by (simp add: aggregateAllData_def Let_def)

lemma sessionId_sum_build [simp]:
  "sessionId_sum (buildSummarizedSession pj sf s) = sessionId s"
  by (simp add: buildSummarizedSession_def Let_def)

lemma eventless_not_among:
  assumes "distinct (map sessionId all)" "s \<in> set all" "events s = []" "set some \<subseteq> set all"
  shows "sessionId s \<notin> sessionId_sum ` set (map (buildSummarizedSession pj sf) (filter (\<lambda>s. events s \<noteq> []) some))"
proof
  assume "sessionId s \<in> sessionId_sum ` set (map (buildSummarizedSession pj sf) (filter (\<lambda>s. events s \<noteq> []) some))"
  then obtain s' where s': "s' \<in> set some" "events s' \<noteq> []" "sessionId s' = sessionId s"
    by auto
  have "inj_on sessionId (set all)" using assms(1) by (simp add: distinct_map)
  then have "s' = s" using s'(1,3) assms(2,4) by (auto dest: inj_onD)
  then show False using s'(2) assms(3) by simp
qed

text \<open>
  Claim C10: the summaries written by \<open>aggregateHourlyData\<close> and by \<open>aggregateAllData\<close> are
  those of the sessions in range that have at least one event, and nothing else is added
  to the table of summaries. With \<open>sessionId\<close> a key of the sessions table, no summary is
  written under the id of a session without events.
\<close>

theorem eventless_sessions_not_summarized:
  "snd (snd (aggregateHourlyData pj sf h db)) =
     map (buildSummarizedSession pj sf) (filter (\<lambda>s. events s \<noteq> []) (getSessionsByHour h db)) \<and>
   snd (snd (aggregateAllData pj sf db)) =
     map (buildSummarizedSession pj sf) (filter (\<lambda>s. events s \<noteq> []) (getAllSessions db)) \<and>
   set (summarized_sessions (fst (aggregateHourlyData pj sf h db))) \<subseteq>
     set (summarized_sessions db) \<union> set (snd (snd (aggregateHourlyData pj sf h db))) \<and>
   set (summarized_sessions (fst (aggregateAllData pj sf db))) \<subseteq>
     set (summarized_sessions db) \<union> set (snd (snd (aggregateAllData pj sf db))) \<and>
   (distinct (map sessionId (sessions db)) \<and> s \<in> set (sessions db) \<and> events s = [] \<longrightarrow>
      sessionId s \<notin> sessionId_sum ` set (snd (snd (aggregateHourlyData pj sf h db))) \<and>
      sessionId s \<notin> sessionId_sum ` set (snd (snd (aggregateAllData pj sf db))))"
proof (intro conjI impI; (elim conjE)?)
  show "snd (snd (aggregateHourlyData pj sf h db)) =
     map (buildSummarizedSession pj sf) (filter (\<lambda>s. events s \<noteq> []) (getSessionsByHour h db))"
    by (simp add: aggregateHourlyData_written)
  show "snd (snd (aggregateAllData pj sf db)) =
     map (buildSummarizedSession pj sf) (filter (\<lambda>s. events s \<noteq> []) (getAllSessions db))"
    by (simp add: aggregateAllData_written)
  show "set (summarized_sessions (fst (aggregateHourlyData pj sf h db))) \<subseteq>
     set (summarized_sessions db) \<union> set (snd (snd (aggregateHourlyData pj sf h db)))"
    using aggregateHourlyData_written[of pj sf h db] set_putRows by metis
  show "set (summarized_sessions (fst (aggregateAllData pj sf db))) \<subseteq>
     set (summarized_sessions db) \<union> set (snd (snd (aggregateAllData pj sf db)))"
    using aggregateAllData_written[of pj sf db] set_putRows by metis
next
  assume a: "distinct (map sessionId (sessions db))" "s \<in> set (sessions db)" "events s = []"
  have "set (getSessionsByHour h db) \<subseteq> set (sessions db)"
    by (simp add: getSessionsByHour_def Let_def)
  from eventless_not_among[OF a this, of pj sf]
  show "sessionId s \<notin> sessionId_sum ` set (snd (snd (aggregateHourlyData pj sf h db)))"
    using aggregateHourlyData_written[of pj sf h db] by metis
  have "set (getAllSessions db) \<subseteq> set (sessions db)" by (simp add: getAllSessions_def)
  from eventless_not_among[OF a this, of pj sf]
  show "sessionId s \<notin> sessionId_sum ` set (snd (snd (aggregateAllData pj sf db)))"
    using aggregateAllData_written[of pj sf db] by metis
qed

lemma twoSessions_hour:
  "getSessionsByHour 0 twoSessions = [visitedSession, silentSession]"
  by (simp add: getSessionsByHour_def twoSessions_def visitedSession_def silentSession_def
      HOUR_MS_def Let_def)

lemma twoSessions_written:
  "snd (snd (aggregateHourlyData noParse noText 0 twoSessions)) =
     [buildSummarizedSession noParse noText visitedSession]"
  "snd (snd (aggregateAllData noParse noText twoSessions)) =
     [buildSummarizedSession noParse noText visitedSession]"
  by (simp_all add: aggregateHourlyData_written aggregateAllData_written twoSessions_hour
      getAllSessions_def)
    (simp_all add: twoSessions_def visitedSession_def silentSession_def)

lemma twoSessions_keys:
  "distinct (map sessionId (sessions twoSessions))" "silentSession \<in> set (sessions twoSessions)"
  "events silentSession = []" "sessionId silentSession = ''session-2''"
  "sessionId visitedSession = ''session-1''"
  by (simp_all add: twoSessions_def visitedSession_def silentSession_def)

theorem eventless_sessions_not_summarized_witness:
  "distinct (map sessionId (sessions twoSessions)) \<and> silentSession \<in> set (sessions twoSessions) \<and>
   events silentSession = [] \<and>
   map sessionId_sum (snd (snd (aggregateHourlyData noParse noText 0 twoSessions))) = [''session-1''] \<and>
   map sessionId_sum (snd (snd (aggregateAllData noParse noText twoSessions))) = [''session-1''] \<and>
   ''session-2'' \<notin> sessionId_sum ` set (snd (snd (aggregateHourlyData noParse noText 0 twoSessions))) \<and>
   ''session-2'' \<notin> sessionId_sum ` set (snd (snd (aggregateAllData noParse noText twoSessions)))"
  using eventless_sessions_not_summarized[of noParse noText 0 twoSessions silentSession,
      THEN conjunct2, THEN conjunct2, THEN conjunct2, THEN conjunct2]
  by (simp add: twoSessions_written twoSessions_keys)

section \<open>Properties of the session lifecycle manager\<close>

lemma cleanupStaleSessions_frame [simp]:
  "isAnalyzing (cleanupStaleSessions now ids st) = isAnalyzing st"
  "analysisTimeouts (cleanupStaleSessions now ids st) = analysisTimeouts st"
  "startTimers (cleanupStaleSessions now ids st) = startTimers st"
  "inFlight (cleanupStaleSessions now ids st) = inFlight st"
  "trackerDisposed (cleanupStaleSessions now ids st) = trackerDisposed st"
  by (simp_all add: cleanupStaleSessions_def Let_def)

lemma manageSession_frame [simp]:
  "isAnalyzing (manageSession pf now st t) = isAnalyzing st"
  "analysisTimeouts (manageSession pf now st t) = analysisTimeouts st"
  "startTimers (manageSession pf now st t) = startTimers st"
  "inFlight (manageSession pf now st t) = inFlight st"
  "trackerDisposed (manageSession pf now st t) = trackerDisposed st"
  by (simp_all add: manageSession_def Let_def split: option.splits)

lemma manageSessions_frame [simp]:
  "isAnalyzing (foldl (manageSession pf now) st ts) = isAnalyzing st"
  "analysisTimeouts (foldl (manageSession pf now) st ts) = analysisTimeouts st"
  "startTimers (foldl (manageSession pf now) st ts) = startTimers st"
  "inFlight (foldl (manageSession pf now) st ts) = inFlight st"
  "trackerDisposed (foldl (manageSession pf now) st ts) = trackerDisposed st"
  by (induction ts arbitrary: st) simp_all

lemma logResult_frame [simp]:
  "isAnalyzing (logResult pf p st r) = isAnalyzing st"
  "analysisTimeouts (logResult pf p st r) = analysisTimeouts st"
  "startTimers (logResult pf p st r) = startTimers st"
  "inFlight (logResult pf p st r) = inFlight st"
  "trackerDisposed (logResult pf p st r) = trackerDisposed st"
  "activeSessions (logResult pf p st r) = activeSessions st"
  by (simp_all add: logResult_def split: option.splits)

lemma logResults_frame [simp]:
  "isAnalyzing (foldl (logResult pf p) st rs) = isAnalyzing st"
  "analysisTimeouts (foldl (logResult pf p) st rs) = analysisTimeouts st"
  "startTimers (foldl (logResult pf p) st rs) = startTimers st"
  "inFlight (foldl (logResult pf p) st rs) = inFlight st"
  "trackerDisposed (foldl (logResult pf p) st rs) = trackerDisposed st"
  "activeSessions (foldl (logResult pf p) st rs) = activeSessions st"
  by (induction rs arbitrary: st) simp_all

lemma loopEnd_frame [simp]:
  "isAnalyzing (loopEnd st) = isAnalyzing st"
  "startTimers (loopEnd st) = startTimers st"
  "inFlight (loopEnd st) = inFlight st"
  "trackerDisposed (loopEnd st) = trackerDisposed st"
  "activeSessions (loopEnd st) = activeSessions st"
  "dbCalls (loopEnd st) = dbCalls st"
  "analysisTimeouts (loopEnd st) = (if isAnalyzing st then analysisTimeouts st + 1 else analysisTimeouts st)"
  by (simp_all add: loopEnd_def)

lemma loop_control:
  "isAnalyzing (loop pf inp st) = isAnalyzing st \<and>
   trackerDisposed (loop pf inp st) = trackerDisposed st \<and>
   startTimers (loop pf inp st) = startTimers st \<and>
   (\<not> isAnalyzing st \<longrightarrow> inFlight (loop pf inp st) = inFlight st \<and>
        analysisTimeouts (loop pf inp st) = analysisTimeouts st) \<and>
   (isAnalyzing st \<longrightarrow>
      (inFlight (loop pf inp st) = inFlight st \<and>
         analysisTimeouts (loop pf inp st) = analysisTimeouts st + 1) \<or>
      (\<not> trackerDisposed st \<and> (\<exists>ts. inFlight (loop pf inp st) = inFlight st @ [ts]) \<and>
         analysisTimeouts (loop pf inp st) = analysisTimeouts st))"
  by (simp add: loop_def Let_def)

lemma resumeLoop_control:
  "isAnalyzing (resumeLoop pf ts outcome st) = isAnalyzing st \<and>
   trackerDisposed (resumeLoop pf ts outcome st) = trackerDisposed st \<and>
   startTimers (resumeLoop pf ts outcome st) = startTimers st \<and>
   inFlight (resumeLoop pf ts outcome st) = inFlight st \<and>
   analysisTimeouts (resumeLoop pf ts outcome st) =
     (if isAnalyzing st then analysisTimeouts st + 1 else analysisTimeouts st)"
  by (simp add: resumeLoop_def split: sum.splits)

lemma loopInvariant_start:
  assumes "loopInvariant st" "startTimers st \<noteq> 0"
  shows "loopInvariant (startAnalysisLoop pf inp (st\<lparr>startTimers := startTimers st - 1\<rparr>))"
proof (cases "isAnalyzing st")
  case True
  then show ?thesis using assms(1) by (simp add: startAnalysisLoop_def loopInvariant_def)
next
  case False
  define st1 where "st1 = st\<lparr>startTimers := startTimers st - 1, isAnalyzing := True\<rparr>"
  have st1: "isAnalyzing st1" "inFlight st1 = inFlight st" "analysisTimeouts st1 = analysisTimeouts st"
    "trackerDisposed st1 = trackerDisposed st"
    by (simp_all add: st1_def)
  have "loopInvariant (loop pf inp st1)"
    using loop_control[of pf inp st1] assms(1) False st1
    by (auto simp: loopInvariant_def)
  then show ?thesis using False by (simp add: startAnalysisLoop_def st1_def)
qed

lemma loopInvariant_timer:
  assumes "loopInvariant st" "analysisTimeouts st \<noteq> 0"
  shows "loopInvariant (loop pf inp (st\<lparr>analysisTimeouts := analysisTimeouts st - 1\<rparr>))"
proof -
  define st1 where "st1 = st\<lparr>analysisTimeouts := analysisTimeouts st - 1\<rparr>"
  have st1: "isAnalyzing st1 = isAnalyzing st" "inFlight st1 = inFlight st"
    "analysisTimeouts st1 = analysisTimeouts st - 1" "trackerDisposed st1 = trackerDisposed st"
    by (simp_all add: st1_def)
  show ?thesis
    unfolding st1_def[symmetric]
    using loop_control[of pf inp st1] assms st1
    by (auto simp: loopInvariant_def length_0_conv[symmetric] simp del: length_0_conv
        split: if_splits)
qed

lemma loopInvariant_settle:
  assumes "loopInvariant st" "i < length (inFlight st)"
  shows "loopInvariant (resumeLoop pf (inFlight st ! i) outcome
           (st\<lparr>inFlight := take i (inFlight st) @ drop (Suc i) (inFlight st)\<rparr>))"
proof -
  from assms have one: "length (inFlight st) = 1" "i = 0" by (auto simp: loopInvariant_def)
  define st1 where "st1 = st\<lparr>inFlight := take i (inFlight st) @ drop (Suc i) (inFlight st)\<rparr>"
  have st1: "isAnalyzing st1 = isAnalyzing st" "inFlight st1 = []"
    "analysisTimeouts st1 = analysisTimeouts st" "trackerDisposed st1 = trackerDisposed st"
    using one by (simp_all add: st1_def)
  show ?thesis
    unfolding st1_def[symmetric]
    using resumeLoop_control[of pf "inFlight st ! i" outcome st1] assms(1) st1 one
    by (auto simp: loopInvariant_def split: if_splits)
qed

lemma loopInvariant_step: "loopInvariant st \<Longrightarrow> loopInvariant (pageStep pf st ev)"
proof (cases ev)
  case CameraReady
  assume "loopInvariant st"
  then show ?thesis using CameraReady by (auto simp: handleCameraReady_def loopInvariant_def)
next
  case (StartTimerFires inp)
  assume "loopInvariant st"
  then show ?thesis using StartTimerFires loopInvariant_start by simp
next
  case (LoopTimerFires inp)
  assume "loopInvariant st"
  then show ?thesis using LoopTimerFires loopInvariant_timer by simp
next
  case (CallSettles i outcome)
  assume "loopInvariant st"
  then show ?thesis using CallSettles loopInvariant_settle by simp
next
  case (Destroy now)
  assume "loopInvariant st"
  then show ?thesis using Destroy by (simp add: onDestroy_def loopInvariant_def)
qed

lemma loopInvariant_run: "loopInvariant st \<Longrightarrow> loopInvariant (runPage pf evs st)"
  unfolding runPage_def
  by (induction evs arbitrary: st) (simp_all add: loopInvariant_step)

lemma loopInvariant_initial: "loopInvariant initialPage"
  by (simp add: loopInvariant_def initialPage_def)

lemma pageStep_new_call:
  assumes "loopInvariant st" "length (inFlight st) < length (inFlight (pageStep pf st ev))"
  shows "inFlight st = []"
proof -
  have "length (inFlight (pageStep pf st ev)) \<le> 1"
    using loopInvariant_step[OF assms(1), of pf ev] by (simp add: loopInvariant_def)
  then have "length (inFlight st) = 0" using assms(2) by linarith
  then show ?thesis by simp
qed

lemma visitor_sel:
  "track_id visitor = ''0A1B2C3D''" "isConfirmed visitor" "matched visitor"
  by (simp_all add: visitor_def)

lemmas page_defs = pageStep.simps handleCameraReady_def startAnalysisLoop_def loop_def loopEnd_def
  cleanupStaleSessions_def cleanupEntry_def manageSession_def initialPage_def examplePlatform_def
  visitor_sel glimpse_def sighting_def nobody_def Let_def SESSION_TIMEOUT_def MIN_SESSION_DURATION_def

lemma run_glimpse:
  "runPage examplePlatform [CameraReady, StartTimerFires (glimpse 0)] initialPage = opened 0"
  by (simp add: runPage_def page_defs opened_def)

lemma run_glimpse_again:
  "pageStep examplePlatform (opened 0) (LoopTimerFires (glimpse 10000)) = opened 10000"
  by (simp add: page_defs opened_def) (simp add: image_iff visitor_sel)

lemma run_nobody:
  "5000 < t - u \<Longrightarrow> 1000 \<le> t \<Longrightarrow> pageStep examplePlatform (opened u) (LoopTimerFires (nobody t)) =
     initialPage\<lparr> isAnalyzing := True, analysisTimeouts := 1,
       dbCalls := [StartSession ''s'', EndSession ''s''], sessionIdCounter := 1\<rparr>"
  by (simp add: page_defs opened_def)

lemma run_sighting:
  "runPage examplePlatform [CameraReady, StartTimerFires (sighting 0)] initialPage =
     (opened 0)\<lparr>analysisTimeouts := 0, inFlight := [[visitor]]\<rparr>"
  by (simp add: runPage_def page_defs opened_def)


lemma cleanupEntry_never_deletes:
  assumes "startTime sd \<le> lastSeen_mem sd"
  shows "fst (cleanupEntry now ids (u, sd)) = [] \<or>
         fst (cleanupEntry now ids (u, sd)) = [EndSession (sessionId_mem sd)]"
  using assms
  by (simp add: cleanupEntry_def Let_def SESSION_TIMEOUT_def MIN_SESSION_DURATION_def)

text \<open>
  Claim C1 asks that a session whose span from first to last sighting is below
  \<open>MIN_SESSION_DURATION\<close> be deleted when it closes. \<open>cleanupStaleSessions\<close> compares
  \<open>now - startTime\<close> instead, at a moment when \<open>now - lastSeen\<close> already exceeds
  \<open>SESSION_TIMEOUT\<close>. In the run below a person is seen in one cycle only; the session
  spans 0 ms, and when it closes 5001 ms later the call issued is \<open>endSession\<close>, not
  \<open>deleteSession\<close>.
\<close>

theorem cleanupStaleSessions_keeps_short_session:
  "activeSessions (runPage examplePlatform [CameraReady, StartTimerFires (glimpse 0)] initialPage) =
     [(''0A1B2C3D'', \<lparr> sessionId_mem = ''s'', startTime = 0, lastSeen_mem = 0 \<rparr>)] \<and>
   (0::int) - 0 < MIN_SESSION_DURATION \<and>
   cleanupEntry 5001 {} (''0A1B2C3D'', \<lparr> sessionId_mem = ''s'', startTime = 0, lastSeen_mem = 0 \<rparr>) =
     ([EndSession ''s''], True) \<and>
   dbCalls (runPage examplePlatform
      [CameraReady, StartTimerFires (glimpse 0), LoopTimerFires (nobody 5001)] initialPage) =
     [StartSession ''s'', EndSession ''s''] \<and>
   activeSessions (runPage examplePlatform
      [CameraReady, StartTimerFires (glimpse 0), LoopTimerFires (nobody 5001)] initialPage) = []"
proof -
  have "runPage examplePlatform
      [CameraReady, StartTimerFires (glimpse 0), LoopTimerFires (nobody 5001)] initialPage =
      pageStep examplePlatform (opened 0) (LoopTimerFires (nobody 5001))"
    using run_glimpse by (simp add: runPage_def)
  also have "\<dots> = initialPage\<lparr> isAnalyzing := True, analysisTimeouts := 1,
       dbCalls := [StartSession ''s'', EndSession ''s''], sessionIdCounter := 1\<rparr>"
    by (rule run_nobody) simp_all
  finally have r: "runPage examplePlatform
      [CameraReady, StartTimerFires (glimpse 0), LoopTimerFires (nobody 5001)] initialPage =
      initialPage\<lparr> isAnalyzing := True, analysisTimeouts := 1,
       dbCalls := [StartSession ''s'', EndSession ''s''], sessionIdCounter := 1\<rparr>" .
  show ?thesis
    unfolding r run_glimpse
    by (simp add: opened_def initialPage_def cleanupEntry_def Let_def SESSION_TIMEOUT_def
        MIN_SESSION_DURATION_def)
qed

lemma getRow_key: "getRow key k rows = Some r \<Longrightarrow> key r = k"
  by (auto simp: getRow_def dest: find_Some_iff[THEN iffD1])

lemma getRow_putRow: "getRow key (key r) (putRow key r rows) = Some r"
  by (induction rows) (simp_all add: getRow_def)

text \<open>
  Claim C3, as stated, equates the recorded duration of a finalized session with the span
  during which the person was present. In the run below the person is seen from 0 ms to
  10000 ms and the session is closed at 15001 ms; \<open>endSession\<close>, carried out at that
  time, records 15.001 seconds, not 10.
\<close>

theorem finalized_duration_counterexample:
  "activeSessions (runPage examplePlatform
      [CameraReady, StartTimerFires (glimpse 0), LoopTimerFires (glimpse 10000)] initialPage) =
     [(''0A1B2C3D'', \<lparr> sessionId_mem = ''s'', startTime = 0, lastSeen_mem = 10000 \<rparr>)] \<and>
   dbCalls (runPage examplePlatform
      [CameraReady, StartTimerFires (glimpse 0), LoopTimerFires (glimpse 10000),
       LoopTimerFires (nobody 15001)] initialPage) = [StartSession ''s'', EndSession ''s''] \<and>
   sessions (performDbCall (EndSession ''s'') 15001
              (performDbCall (StartSession ''s'') 0 emptyDatabase)) =
     [\<lparr> sessionId = ''s'', firstSeen_db = 0, lastSeen_db = 15001, duration = 15001 / 1000,
        events = [] \<rparr>] \<and>
   (15001 / 1000 :: real) \<noteq> real_of_int (10000 - 0) / 1000"
proof -
  have a: "runPage examplePlatform
      [CameraReady, StartTimerFires (glimpse 0), LoopTimerFires (glimpse 10000)] initialPage =
      opened 10000"
    using run_glimpse run_glimpse_again by (simp add: runPage_def)
  have b: "runPage examplePlatform
      [CameraReady, StartTimerFires (glimpse 0), LoopTimerFires (glimpse 10000),
       LoopTimerFires (nobody 15001)] initialPage =
      pageStep examplePlatform (opened 10000) (LoopTimerFires (nobody 15001))"
    using run_glimpse run_glimpse_again by (simp add: runPage_def)
  have c: "sessions (performDbCall (EndSession ''s'') 15001
              (performDbCall (StartSession ''s'') 0 emptyDatabase)) =
     [\<lparr> sessionId = ''s'', firstSeen_db = 0, lastSeen_db = 15001, duration = 15001 / 1000,
        events = [] \<rparr>]"
    by (simp add: endSession_def updateSessionHeartbeat_def startSession_def emptyDatabase_def
        getRow_def)
  have d: "pageStep examplePlatform (opened 10000) (LoopTimerFires (nobody 15001)) =
      initialPage\<lparr> isAnalyzing := True, analysisTimeouts := 1,
       dbCalls := [StartSession ''s'', EndSession ''s''], sessionIdCounter := 1\<rparr>"
    by (rule run_nobody) simp_all
  show ?thesis
    unfolding a b c d
    by (simp add: opened_def initialPage_def)
qed

text \<open>
  Claim C3, amended: when an identity has been absent for longer than the grace timeout
  and its session has lasted at least the minimum duration, \<open>cleanupStaleSessions\<close>
  finalizes the session by \<open>endSession\<close>; carried out at time \<open>tEnd\<close>, \<open>endSession\<close>
  overwrites the stored \<open>lastSeen\<close> with \<open>tEnd\<close> and records
  \<open>duration = (tEnd - firstSeen) / 1000\<close> seconds. The recorded duration is the span from
  \<open>firstSeen\<close> to the time of finalization, not to the last time the identity was seen.
\<close>

theorem finalized_duration:
  assumes "getSession (sessionId_mem sd) db = Some row"
    and "u \<notin> ids"
    and "SESSION_TIMEOUT < now - lastSeen_mem sd"
    and "MIN_SESSION_DURATION \<le> now - startTime sd"
  shows "cleanupEntry now ids (u, sd) = ([EndSession (sessionId_mem sd)], True) \<and>
         getSession (sessionId_mem sd) (performDbCall (EndSession (sessionId_mem sd)) tEnd db) =
           Some (row\<lparr>lastSeen_db := tEnd,
                     duration := real_of_int (tEnd - firstSeen_db row) / 1000\<rparr>)"
proof
  show "cleanupEntry now ids (u, sd) = ([EndSession (sessionId_mem sd)], True)"
    using assms(2,3,4) by (simp add: cleanupEntry_def Let_def)
next
  let ?sid = "sessionId_mem sd"
  have key: "sessionId row = ?sid" using assms(1) getRow_key by (simp add: getSession_def) fastforce
  define row' where "row' = row\<lparr>lastSeen_db := tEnd, duration := real_of_int (tEnd - firstSeen_db row) / 1000\<rparr>"
  have "sessionId row' = ?sid" using key by (simp add: row'_def)
  then have "getRow sessionId ?sid (putRow sessionId row' (sessions db)) = Some row'"
    using getRow_putRow[of sessionId row' "sessions db"] by simp
  then show "getSession ?sid (performDbCall (EndSession ?sid) tEnd db) =
           Some (row\<lparr>lastSeen_db := tEnd, duration := real_of_int (tEnd - firstSeen_db row) / 1000\<rparr>)"
    using assms(1)
    by (simp add: getSession_def endSession_def updateSessionHeartbeat_def row'_def)
qed

theorem finalized_duration_witness:
  "getSession ''s'' (performDbCall (StartSession ''s'') 0 emptyDatabase) =
     Some \<lparr> sessionId = ''s'', firstSeen_db = 0, lastSeen_db = 0, duration = 0, events = [] \<rparr> \<and>
   ''0A1B2C3D'' \<notin> ({} :: string set) \<and>
   SESSION_TIMEOUT < 15001 - (10000 :: int) \<and>
   MIN_SESSION_DURATION \<le> 15001 - (0 :: int) \<and>
   cleanupEntry 15001 {} (''0A1B2C3D'', \<lparr> sessionId_mem = ''s'', startTime = 0, lastSeen_mem = 10000 \<rparr>) =
     ([EndSession ''s''], True) \<and>
   getSession ''s'' (performDbCall (EndSession ''s'') 15001
                      (performDbCall (StartSession ''s'') 0 emptyDatabase)) =
     Some \<lparr> sessionId = ''s'', firstSeen_db = 0, lastSeen_db = 15001, duration = 15001 / 1000,
            events = [] \<rparr>"
proof -
  have g: "getSession (sessionId_mem \<lparr> sessionId_mem = ''s'', startTime = 0, lastSeen_mem = 10000 \<rparr>)
             (performDbCall (StartSession ''s'') 0 emptyDatabase) =
     Some \<lparr> sessionId = ''s'', firstSeen_db = 0, lastSeen_db = 0, duration = 0, events = [] \<rparr>"
    by (simp add: getSession_def startSession_def emptyDatabase_def getRow_def)
  have n: "''0A1B2C3D'' \<notin> ({} :: string set)" by simp
  have t: "SESSION_TIMEOUT < 15001 - lastSeen_mem \<lparr> sessionId_mem = ''s'', startTime = 0, lastSeen_mem = 10000 \<rparr>"
    by (simp add: SESSION_TIMEOUT_def)
  have m: "MIN_SESSION_DURATION \<le> 15001 - startTime \<lparr> sessionId_mem = ''s'', startTime = 0, lastSeen_mem = 10000 \<rparr>"
    by (simp add: MIN_SESSION_DURATION_def)
  show ?thesis
    using finalized_duration[OF g n t m, of 15001] g t m by simp
qed

lemma raw_not_short: "\<not> isShortId ''raw''"
  by (simp add: isShortId_def)

lemma raw_no_session:
  assumes "list_all (\<lambda>e. isShortId (fst e)) entries"
  shows "map_of entries ''raw'' = None"
proof -
  have "''raw'' \<notin> fst ` set entries"
  proof
    assume "''raw'' \<in> fst ` set entries"
    then obtain e where "e \<in> set entries" "fst e = ''raw''" by auto
    then have "isShortId ''raw''" using assms by (auto simp: list_all_iff)
    then show False using raw_not_short by simp
  qed
  then show ?thesis by (simp add: map_of_eq_None_iff)
qed

lemma cleanupEntry_no_log: "filter isAddAnalysisLog (fst (cleanupEntry now ids e)) = []"
  by (cases e) (simp add: cleanupEntry_def Let_def)

lemma cleanupStaleSessions_no_log:
  "filter isAddAnalysisLog (dbCalls (cleanupStaleSessions now ids st)) =
     filter isAddAnalysisLog (dbCalls st)"
proof -
  have "filter isAddAnalysisLog (concat (map (\<lambda>e. fst (cleanupEntry now ids e)) es)) = []" for es
    by (induction es) (simp_all add: cleanupEntry_no_log)
  then show ?thesis by (simp add: cleanupStaleSessions_def Let_def)
qed

lemma manageSession_no_log:
  "filter isAddAnalysisLog (dbCalls (manageSession pf now st t)) = filter isAddAnalysisLog (dbCalls st)"
  by (simp add: manageSession_def Let_def split: option.splits)

lemma manageSessions_no_log:
  "filter isAddAnalysisLog (dbCalls (foldl (manageSession pf now) st ts)) =
     filter isAddAnalysisLog (dbCalls st)"
  by (induction ts arbitrary: st) (simp_all add: manageSession_no_log)

lemma loop_no_log:
  "filter isAddAnalysisLog (dbCalls (loop pf inp st)) = filter isAddAnalysisLog (dbCalls st)"
  by (simp add: loop_def Let_def manageSessions_no_log cleanupStaleSessions_no_log)

lemma resumeLoop_failed:
  assumes "inferenceFailed pf outcome"
    and "\<And>fullText. outcome = Output fullText \<Longrightarrow> list_all (\<lambda>e. isShortId (fst e)) (activeSessions st)"
  shows "resumeLoop pf ts outcome st = loopEnd st"
proof (cases outcome)
  case Unavailable
  then show ?thesis by (simp add: resumeLoop_def analyzeFrameWithNanoStreaming_def)
next
  case PromptFails
  then show ?thesis by (simp add: resumeLoop_def analyzeFrameWithNanoStreaming_def)
next
  case (Output fullText)
  then have "parseResults pf (cleanText pf fullText) = None"
    using assms(1) by (simp add: inferenceFailed_def)
  moreover have "map_of (activeSessions st) ''raw'' = None"
    using assms(2)[OF Output] by (rule raw_no_session)
  ultimately show ?thesis
    using Output
    by (simp add: resumeLoop_def analyzeFrameWithNanoStreaming_def Let_def logResult_def rawResult_def)
qed

text \<open>
  Claim C6: when the outstanding inference call settles with a failure (it throws, or its
  output does not parse as JSON), the run of \<open>loop\<close> that made it issues no store call,
  so appends no event; it leaves \<open>activeSessions\<close> as it is, and schedules the next run
  (while \<open>isAnalyzing\<close> holds). The part of the run before the call issues no
  \<open>addAnalysisLog\<close> either. For unparsable output the uids of the open sessions are taken
  to be identifiers as \<open>generateID\<close> makes them, which the fallback uid \<open>raw\<close> is not.
\<close>

theorem inference_failure_keeps_sessions:
  assumes "i < length (inFlight st)"
    and "inferenceFailed pf outcome"
    and "\<And>fullText. outcome = Output fullText \<Longrightarrow> list_all (\<lambda>e. isShortId (fst e)) (activeSessions st)"
  shows "activeSessions (pageStep pf st (CallSettles i outcome)) = activeSessions st \<and>
         dbCalls (pageStep pf st (CallSettles i outcome)) = dbCalls st \<and>
         isAnalyzing (pageStep pf st (CallSettles i outcome)) = isAnalyzing st \<and>
         analysisTimeouts (pageStep pf st (CallSettles i outcome)) =
           (if isAnalyzing st then analysisTimeouts st + 1 else analysisTimeouts st) \<and>
         filter isAddAnalysisLog (dbCalls (loop pf inp st0)) = filter isAddAnalysisLog (dbCalls st0)"
proof -
  define st1 where "st1 = st\<lparr>inFlight := take i (inFlight st) @ drop (Suc i) (inFlight st)\<rparr>"
  have "\<And>fullText. outcome = Output fullText \<Longrightarrow> list_all (\<lambda>e. isShortId (fst e)) (activeSessions st1)"
    using assms(3) by (simp add: st1_def)
  from resumeLoop_failed[OF assms(2) this, where ts = "inFlight st ! i"]
  have "pageStep pf st (CallSettles i outcome) = loopEnd st1"
    using assms(1) by (simp add: st1_def)
  then show ?thesis by (simp add: st1_def loop_no_log)
qed


lemma waitingPage_sel:
  "inFlight ((opened 0)\<lparr>analysisTimeouts := 0, inFlight := [[visitor]]\<rparr>) = [[visitor]]"
  "activeSessions ((opened 0)\<lparr>analysisTimeouts := 0, inFlight := [[visitor]]\<rparr>) =
     [(''0A1B2C3D'', \<lparr> sessionId_mem = ''s'', startTime = 0, lastSeen_mem = 0 \<rparr>)]"
  "dbCalls ((opened 0)\<lparr>analysisTimeouts := 0, inFlight := [[visitor]]\<rparr>) = [StartSession ''s'']"
  "isAnalyzing ((opened 0)\<lparr>analysisTimeouts := 0, inFlight := [[visitor]]\<rparr>)"
  "analysisTimeouts ((opened 0)\<lparr>analysisTimeouts := 0, inFlight := [[visitor]]\<rparr>) = 0"
  by (simp_all add: opened_def initialPage_def)

lemma shortId_example: "isShortId ''0A1B2C3D''"
  by (simp add: isShortId_def)

theorem inference_failure_keeps_sessions_witness:
  "0 < length (inFlight (runPage examplePlatform [CameraReady, StartTimerFires (sighting 0)] initialPage)) \<and>
   inferenceFailed examplePlatform (Output ''not json'') \<and>
   list_all (\<lambda>e. isShortId (fst e))
     (activeSessions (runPage examplePlatform [CameraReady, StartTimerFires (sighting 0)] initialPage)) \<and>
   dbCalls (runPage examplePlatform [CameraReady, StartTimerFires (sighting 0)] initialPage) =
     [StartSession ''s''] \<and>
   activeSessions (pageStep examplePlatform
       (runPage examplePlatform [CameraReady, StartTimerFires (sighting 0)] initialPage)
       (CallSettles 0 (Output ''not json''))) =
     [(''0A1B2C3D'', \<lparr> sessionId_mem = ''s'', startTime = 0, lastSeen_mem = 0 \<rparr>)] \<and>
   dbCalls (pageStep examplePlatform
       (runPage examplePlatform [CameraReady, StartTimerFires (sighting 0)] initialPage)
       (CallSettles 0 (Output ''not json''))) = [StartSession ''s''] \<and>
   analysisTimeouts (pageStep examplePlatform
       (runPage examplePlatform [CameraReady, StartTimerFires (sighting 0)] initialPage)
       (CallSettles 0 (Output ''not json''))) = 1"
proof -
  let ?st = "(opened 0)\<lparr>analysisTimeouts := 0, inFlight := [[visitor]]\<rparr>"
  have i: "0 < length (inFlight ?st)" by (simp add: waitingPage_sel)
  have f: "inferenceFailed examplePlatform (Output ''not json'')"
    by (simp add: inferenceFailed_def examplePlatform_def)
  have s: "list_all (\<lambda>e. isShortId (fst e)) (activeSessions ?st)"
    by (simp add: waitingPage_sel shortId_example)
  show ?thesis
    unfolding run_sighting
    using inference_failure_keeps_sessions[OF i f s, where inp = "nobody 0" and ?st0.0 = initialPage] i f s
    by (simp add: waitingPage_sel)
qed

text \<open>
  Claim C8: in every state the page reaches from its initial state, by any sequence of
  events, at most one call of \<open>analyzeFrameWithNanoStreaming\<close> is outstanding; an event
  starts a call only when none is outstanding; and \<open>startAnalysisLoop\<close> does nothing while
  \<open>isAnalyzing\<close> holds.
\<close>

theorem one_inference_call_in_flight:
  "length (inFlight (runPage pf evs initialPage)) \<le> 1 \<and>
   (length (inFlight (runPage pf evs initialPage)) <
      length (inFlight (pageStep pf (runPage pf evs initialPage) ev)) \<longrightarrow>
    inFlight (runPage pf evs initialPage) = []) \<and>
   (isAnalyzing st \<longrightarrow> startAnalysisLoop pf inp st = st)"
proof (intro conjI impI)
  have inv: "loopInvariant (runPage pf evs initialPage)"
    using loopInvariant_run[OF loopInvariant_initial] .
  then show "length (inFlight (runPage pf evs initialPage)) \<le> 1"
    by (simp add: loopInvariant_def)
  show "inFlight (runPage pf evs initialPage) = []"
    if "length (inFlight (runPage pf evs initialPage)) <
      length (inFlight (pageStep pf (runPage pf evs initialPage) ev))"
    using pageStep_new_call[OF inv that] .
  show "startAnalysisLoop pf inp st = st" if "isAnalyzing st"
    using that by (simp add: startAnalysisLoop_def)
qed

lemma run_camera: "runPage pf [CameraReady] initialPage = initialPage\<lparr>startTimers := 1\<rparr>"
  by (simp add: runPage_def handleCameraReady_def initialPage_def)

lemma first_call:
  "pageStep examplePlatform (initialPage\<lparr>startTimers := 1\<rparr>) (StartTimerFires (sighting 0)) =
     (opened 0)\<lparr>analysisTimeouts := 0, inFlight := [[visitor]]\<rparr>"
  using run_sighting by (simp add: runPage_def handleCameraReady_def initialPage_def)

theorem one_inference_call_in_flight_witness:
  "length (inFlight (runPage examplePlatform [CameraReady] initialPage)) <
     length (inFlight (pageStep examplePlatform (runPage examplePlatform [CameraReady] initialPage)
        (StartTimerFires (sighting 0)))) \<and>
   inFlight (runPage examplePlatform [CameraReady] initialPage) = [] \<and>
   isAnalyzing (runPage examplePlatform [CameraReady, StartTimerFires (sighting 0)] initialPage) \<and>
   length (inFlight (runPage examplePlatform [CameraReady, StartTimerFires (sighting 0)] initialPage)) = 1 \<and>
   startAnalysisLoop examplePlatform (sighting 10)
       (runPage examplePlatform [CameraReady, StartTimerFires (sighting 0)] initialPage) =
     runPage examplePlatform [CameraReady, StartTimerFires (sighting 0)] initialPage"
  using one_inference_call_in_flight[of examplePlatform "[CameraReady]" "StartTimerFires (sighting 0)"
      "runPage examplePlatform [CameraReady, StartTimerFires (sighting 0)] initialPage" "sighting 10"]
  unfolding run_camera first_call run_sighting
  by (simp add: waitingPage_sel) (simp add: initialPage_def)

end
